theory Spec2Isabelle
  imports Main "HOL-Library.AList"
begin

text \<open>
  A shallow embedding of the sitemap monitor: the helpers of \<open>utils.ts\<close>, the JSON files
  of \<open>storage.ts\<close>, \<open>discoverSitemap\<close> and \<open>fetchSitemapUrls\<close> of \<open>scanner.ts\<close>, and the
  operations \<open>baseline\<close> and \<open>scan\<close> of \<open>api\<close>. Pure functions are HOL functions; an
  operation takes the store and returns its result, \<open>Inl\<close> for a thrown error, together
  with the new store. The network, the XML parser, the digest, the \<open>URL\<close> class, the clock
  and the faults of the storage calls are parameters, collected in an environment.
\<close>

section \<open>JavaScript strings\<close>

text \<open>
  A JavaScript string is modelled as a \<^typ>\<open>string\<close>; each \<^typ>\<open>char\<close> stands for one
  code unit below 256. \<open>String.prototype.trim\<close> removes white space and line terminators
  from both ends; below 256 these are the code units 9 to 13, 32 and 160.
\<close>

definition isWhiteSpace :: "char \<Rightarrow> bool" where
  "isWhiteSpace c \<longleftrightarrow>
     c \<in> {CHR 0x09, CHR 0x0A, CHR 0x0B, CHR 0x0C, CHR 0x0D, CHR 0x20, CHR 0xA0}"

definition trimStart :: "string \<Rightarrow> string" where
  "trimStart s = dropWhile isWhiteSpace s"

definition trimEnd :: "string \<Rightarrow> string" where
  "trimEnd s = rev (dropWhile isWhiteSpace (rev s))"

definition trim :: "string \<Rightarrow> string" where
  "trim s = trimEnd (trimStart s)"

text \<open>\<open>s.indexOf(c)\<close> for a one-character needle; \<open>None\<close> stands for \<open>-1\<close>.\<close>

fun indexOf :: "string \<Rightarrow> char \<Rightarrow> nat option" where
  "indexOf [] c = None"
| "indexOf (x # xs) c =
     (if x = c then Some 0 else map_option Suc (indexOf xs c))"

definition startsWith :: "string \<Rightarrow> string \<Rightarrow> bool" where
  "startsWith s p \<longleftrightarrow> take (length p) s = p"

definition endsWith :: "string \<Rightarrow> string \<Rightarrow> bool" where
  "endsWith s p \<longleftrightarrow> length p \<le> length s \<and> drop (length s - length p) s = p"

text \<open>\<open>s.includes(p)\<close>: \<open>p\<close> occurs in \<open>s\<close> at some position.\<close>

fun includesStr :: "string \<Rightarrow> string \<Rightarrow> bool" where
  "includesStr [] p = (p = [])"
| "includesStr (x # xs) p = (startsWith (x # xs) p \<or> includesStr xs p)"

section \<open>services/utils.ts\<close>

subsection \<open>normalizeUrl\<close>

text \<open>
  \<^verbatim>\<open>
  let clean = url.trim();
  const anchorIdx = clean.indexOf('#');
  if (anchorIdx !== -1) clean = clean.substring(0, anchorIdx);
  if (clean.endsWith('/')) clean = clean.slice(0, -1);
  return clean;
  \<close>
\<close>

definition normalizeUrl :: "string \<Rightarrow> string" where
  "normalizeUrl url =
     (let clean = trim url;
          clean = (case indexOf clean (CHR ''#'') of
                     None \<Rightarrow> clean
                   | Some anchorIdx \<Rightarrow> take anchorIdx clean);
          clean = (if endsWith clean ''/'' then butlast clean else clean)
      in clean)"

subsection \<open>getProtocol\<close>

definition isDigit :: "char \<Rightarrow> bool" where
  "isDigit c \<longleftrightarrow> c \<in> set ''0123456789''"

text \<open>
  One group \<open>[0-9]{1,3}\.\<close> matched at the head of \<open>s\<close>; the result is the rest of the
  input. The digits must be followed by a dot, so the group can only end where the run of
  digits ends.
\<close>

definition octetDot :: "string \<Rightarrow> string option" where
  "octetDot s =
     (let ds = takeWhile isDigit s; r = dropWhile isDigit s
      in if 1 \<le> length ds \<and> length ds \<le> 3 \<and> startsWith r ''.'' then Some (tl r)
         else None)"

text \<open>The tail \<open>[0-9]{1,3}(?::[0-9]+)?$\<close>.\<close>

definition lastOctetPort :: "string \<Rightarrow> bool" where
  "lastOctetPort s \<longleftrightarrow>
     (let ds = takeWhile isDigit s; r = dropWhile isDigit s
      in 1 \<le> length ds \<and> length ds \<le> 3 \<and>
         (r = [] \<or> (startsWith r '':'' \<and> tl r \<noteq> [] \<and> list_all isDigit (tl r))))"

text \<open>\<open>/^(?:[0-9]{1,3}\.){3}[0-9]{1,3}(?::[0-9]+)?$/.test(domain)\<close>\<close>

definition ipv4Regex :: "string \<Rightarrow> bool" where
  "ipv4Regex domain \<longleftrightarrow>
     (case octetDot domain of
        None \<Rightarrow> False
      | Some r1 \<Rightarrow>
          (case octetDot r1 of
             None \<Rightarrow> False
           | Some r2 \<Rightarrow>
               (case octetDot r2 of
                  None \<Rightarrow> False
                | Some r3 \<Rightarrow> lastOctetPort r3)))"

text \<open>
  \<^verbatim>\<open>
  const isLocal =
    domain.startsWith("localhost") ||
    domain.startsWith("127.0.0.1") ||
    domain.startsWith("0.0.0.0") ||
    domain.includes("localhost:") ||
    /^(?:[0-9]{1,3}\.){3}[0-9]{1,3}(?::[0-9]+)?$/.test(domain);
  return isLocal ? 'http://' : 'https://';
  \<close>
\<close>

definition isLocal :: "string \<Rightarrow> bool" where
  "isLocal domain \<longleftrightarrow>
     startsWith domain ''localhost'' \<or>
     startsWith domain ''127.0.0.1'' \<or>
     startsWith domain ''0.0.0.0'' \<or>
     includesStr domain ''localhost:'' \<or>
     ipv4Regex domain"

definition getProtocol :: "string \<Rightarrow> string" where
  "getProtocol domain = (if isLocal domain then ''http://'' else ''https://'')"

text \<open>
  The reading of the pattern used to state properties of \<open>getProtocol\<close>: four groups of
  one to three decimal digits separated by dots, optionally followed by a colon and a
  non-empty run of digits.
\<close>

definition octet :: "string \<Rightarrow> bool" where
  "octet a \<longleftrightarrow> a \<noteq> [] \<and> length a \<le> 3 \<and> list_all isDigit a"

definition portSuffix :: "string \<Rightarrow> bool" where
  "portSuffix p \<longleftrightarrow> p = [] \<or> (startsWith p '':'' \<and> tl p \<noteq> [] \<and> list_all isDigit (tl p))"

definition bareIPv4 :: "string \<Rightarrow> bool" where
  "bareIPv4 domain \<longleftrightarrow>
     (\<exists>a b c e p. domain = a @ ''.'' @ b @ ''.'' @ c @ ''.'' @ e @ p \<and>
        octet a \<and> octet b \<and> octet c \<and> octet e \<and> portSuffix p)"

subsection \<open>classifyUrl and extractGameKeyword\<close>

text \<open>
  \<open>String.prototype.toLowerCase\<close> on code units below 256: an ASCII capital becomes
  the small letter, and a Latin-1 capital (192 to 222 except the multiplication sign 215)
  moves up by 32.
\<close>

definition toLowerChar :: "char \<Rightarrow> char" where
  "toLowerChar c =
     (case map_of (zip ''ABCDEFGHIJKLMNOPQRSTUVWXYZ'' ''abcdefghijklmnopqrstuvwxyz'') c of
        Some l \<Rightarrow> l
      | None \<Rightarrow>
          (let n = (of_char c :: nat)
           in if 192 \<le> n \<and> n \<le> 222 \<and> n \<noteq> 215 then char_of (n + 32) else c))"

definition toLowerCase :: "string \<Rightarrow> string" where
  "toLowerCase s = map toLowerChar s"

text \<open>\<open>s.split(c)\<close> for a one-character separator: never the empty list.\<close>

fun splitOn :: "char \<Rightarrow> string \<Rightarrow> string list" where
  "splitOn c [] = [[]]"
| "splitOn c (x # xs) =
     (if x = c then [] # splitOn c xs
      else (case splitOn c xs of
              [] \<Rightarrow> [[x]]
            | p # ps \<Rightarrow> (x # p) # ps))"

datatype UrlType = Game | Tag | Category | Home | UnknownUrl

text \<open>
  The platform's \<open>URL\<close> class is not part of the repository. \<open>pathname\<close> below stands for
  \<open>new URL(url).pathname\<close>, with \<open>None\<close> when the constructor throws.
  \<^verbatim>\<open>
  try {
    const path = new URL(url).pathname;
    if (path === '/' || path === '') return 'home';
    if (path.startsWith('/c/') || path.includes('/category/')) return 'category';
    if (path.startsWith('/t/') || path.includes('/tag/')) return 'tag';
    return 'game';
  } catch (e) { return 'unknown'; }
  \<close>
\<close>

definition classifyUrl :: "(string \<Rightarrow> string option) \<Rightarrow> string \<Rightarrow> UrlType" where
  "classifyUrl pathname url =
     (case pathname url of
        None \<Rightarrow> UnknownUrl
      | Some path \<Rightarrow>
          if path = ''/'' \<or> path = [] then Home
          else if startsWith path ''/c/'' \<or> includesStr path ''/category/'' then Category
          else if startsWith path ''/t/'' \<or> includesStr path ''/tag/'' then Tag
          else Game)"

definition extractGameKeyword :: "(string \<Rightarrow> string option) \<Rightarrow> string \<Rightarrow> string" where
  "extractGameKeyword pathname url =
     (case pathname url of
        None \<Rightarrow> []
      | Some path \<Rightarrow>
          (let pathParts = filter (\<lambda>p. length p > 0) (splitOn (CHR ''/'') path)
           in if length pathParts = 0 then []
              else (let slug = pathParts ! (length pathParts - 1);
                        slug = map (\<lambda>c. if c = CHR ''-'' \<or> c = CHR ''_'' then CHR '' '' else c) slug
                    in toLowerCase (trim slug))))"

section \<open>types.ts\<close>

datatype SiteStatus = Unknown | Ok | Failed | Unsupported

datatype Outcome = Success | Failure

record ScanSummary =
  outcome :: Outcome
  parsedCount :: nat
  newOrInsertedCount :: nat
  durationMs :: int
  error :: "string option"
  sampleUrls :: "string list"

text \<open>The field \<open>id\<close> of a site is \<open>id_site\<close> here, that of an item \<open>id_item\<close>.\<close>

record Site =
  id_site :: string
  domain :: string
  sitemapUrl :: string
  status :: SiteStatus
  errorMessage :: string
  baselineReady :: bool
  baselineAt :: "string option"
  lastScanAt :: "string option"
  seenCount :: nat
  lastNewFound :: nat
  lastResult :: "ScanSummary option"
  createdAt :: string

datatype ReviewStatus = Pending | Confirmed | Ignored | Not_game

record NewItem =
  id_item :: string
  siteId :: string
  domain_item :: string
  url :: string
  keywordAuto :: string
  keywordFinal :: string
  reviewStatus :: ReviewStatus
  urlType :: UrlType
  title :: "string option"
  discoveredAt :: string
  sourceSitemapUrl :: string

section \<open>The environment\<close>

text \<open>A thrown \<open>Error\<close> is represented by its \<open>message\<close>.\<close>

datatype js_error = Error (message: string)

record http_response =
  status_code :: nat
  data :: string

text \<open>
  What the code reads from the object returned by \<open>parser.parse\<close>: \<open>xmlData.urlset\<close>
  (\<open>None\<close> when the property is missing or falsy), and inside it \<open>urlset.url\<close>, which is
  an array of entries, a single entry or missing; of an entry only \<open>loc\<close> is read (\<open>None\<close>
  when missing). \<open>sitemapindex\<close> tells whether \<open>xmlData.sitemapindex\<close> is truthy. The
  parser gives the empty string for an element without content, and the empty string is
  falsy: for the document \<open><urlset/>\<close> the field \<open>urlset\<close> is \<open>None\<close>, and for
  \<open><sitemapindex/>\<close> the field \<open>sitemapindex\<close> is \<open>False\<close>.
\<close>

datatype urlEntry = UrlArray "string option list" | UrlObject "string option" | UrlMissing

record xmlData =
  urlset :: "urlEntry option"
  sitemapindex :: bool

text \<open>
  Everything outside the repository is a field of the environment: the network
  (\<open>Inl\<close> when no response arrives), the XML parser (\<open>Inl\<close> when it throws), the
  SHA-1 digest in hexadecimal, the \<open>URL\<close> class, the title fetch (which catches its own
  errors), the \<open>k\<close>-th identifier, time stamp and clock value read during one operation,
  and for every storage call site whether that call throws.
\<close>

record env =
  http_request :: "string \<Rightarrow> js_error + http_response"
  xml_parse :: "string \<Rightarrow> js_error + xmlData"
  sha1_hex :: "string \<Rightarrow> string"
  url_pathname :: "string \<Rightarrow> string option"
  fetchPageTitle :: "string \<Rightarrow> string option"
  uuid :: "nat \<Rightarrow> string"
  toISOString :: "nat \<Rightarrow> string"
  dateNow :: "nat \<Rightarrow> int"
  loadSites_fault :: "js_error option"
  loadSeen_fault :: "js_error option"
  saveSeen_fault :: "js_error option"
  loadNewItems_fault :: "js_error option"
  writeNewItems_fault :: "js_error option"
  saveSites_fault :: "js_error option"
  saveSites_catch_fault :: "js_error option"

text \<open>No storage call throws.\<close>

definition noFaults :: "env \<Rightarrow> bool" where
  "noFaults env \<longleftrightarrow>
     loadSites_fault env = None \<and> loadSeen_fault env = None \<and> saveSeen_fault env = None \<and>
     loadNewItems_fault env = None \<and> writeNewItems_fault env = None \<and>
     saveSites_fault env = None \<and> saveSites_catch_fault env = None"

section \<open>The HTTP client\<close>

text \<open>A number in a template string: its decimal digits.\<close>

fun showNat :: "nat \<Rightarrow> string" where
  "showNat n =
     (if n < 10 then [''0123456789'' ! n]
      else showNat (n div 10) @ [''0123456789'' ! (n mod 10)])"

declare showNat.simps [simp del]

text \<open>
  \<open>axios.get(url, config)\<close>: the promise rejects when no response arrives, and also when
  \<open>config.validateStatus\<close> refuses the status of the response; the message of that error is
  \<open>Request failed with status code {status}\<close>. Without the option, a status from 200 to 299
  is accepted.
\<close>

definition defaultValidateStatus :: "nat \<Rightarrow> bool" where
  "defaultValidateStatus s \<longleftrightarrow> 200 \<le> s \<and> s < 300"

definition axios_get :: "env \<Rightarrow> (nat \<Rightarrow> bool) \<Rightarrow> string \<Rightarrow> js_error + http_response" where
  "axios_get env validateStatus target =
     (case http_request env target of
        Inl e \<Rightarrow> Inl e
      | Inr res \<Rightarrow>
          if validateStatus (status_code res) then Inr res
          else Inl (Error (''Request failed with status code '' @ showNat (status_code res))))"

section \<open>server/storage.ts\<close>

text \<open>
  The three JSON files and a log of the I/O calls made so far. A JavaScript object
  used as a dictionary is an association list in insertion order: reading a property is
  \<open>map_of\<close>, assigning one is \<open>AList.update\<close> (in place when the key exists, at the end
  otherwise). \<open>seen_urls.json\<close> maps a site id to the object that maps each hash to its
  URL.
\<close>

datatype io_event =
  LoadSites | SaveSites | LoadSeen | SaveSeen | LoadNewItems | WriteNewItems
  | HttpGet string | FetchPageTitle string

type_synonym seen_map = "(string \<times> string) list"

record store =
  sites_json :: "Site list"
  seen_urls_json :: "(string \<times> seen_map) list"
  new_items_json :: "NewItem list"
  io_log :: "io_event list"

definition logged :: "io_event \<Rightarrow> store \<Rightarrow> store" where
  "logged ev w = w\<lparr>io_log := io_log w @ [ev]\<rparr>"

text \<open>The seen-set of one site: \<open>allSeen[siteId] || {}\<close>, as in \<open>getSiteSeenUrls\<close>.\<close>

definition siteSeenMap :: "store \<Rightarrow> string \<Rightarrow> seen_map" where
  "siteSeenMap w sid = (case map_of (seen_urls_json w) sid of None \<Rightarrow> [] | Some m \<Rightarrow> m)"

text \<open>
  \<open>atomicWrite\<close> writes a temporary file and renames it: when it throws, the file is as
  before.
\<close>

definition atomicWrite ::
  "js_error option \<Rightarrow> (store \<Rightarrow> store) \<Rightarrow> store \<Rightarrow> (js_error + unit) \<times> store" where
  "atomicWrite fault upd w = (case fault of Some e \<Rightarrow> (Inl e, w) | None \<Rightarrow> (Inr (), upd w))"

definition loadSites :: "env \<Rightarrow> store \<Rightarrow> (js_error + Site list) \<times> store" where
  "loadSites env w =
     ((case loadSites_fault env of Some e \<Rightarrow> Inl e | None \<Rightarrow> Inr (sites_json w)),
      logged LoadSites w)"

definition saveSites ::
  "js_error option \<Rightarrow> Site list \<Rightarrow> store \<Rightarrow> (js_error + unit) \<times> store" where
  "saveSites fault sites w =
     atomicWrite fault (\<lambda>w. w\<lparr>sites_json := sites\<rparr>) (logged SaveSites w)"

definition loadSeen :: "env \<Rightarrow> store \<Rightarrow> (js_error + (string \<times> seen_map) list) \<times> store" where
  "loadSeen env w =
     ((case loadSeen_fault env of Some e \<Rightarrow> Inl e | None \<Rightarrow> Inr (seen_urls_json w)),
      logged LoadSeen w)"

definition saveSeen ::
  "env \<Rightarrow> (string \<times> seen_map) list \<Rightarrow> store \<Rightarrow> (js_error + unit) \<times> store" where
  "saveSeen env seen w =
     atomicWrite (saveSeen_fault env) (\<lambda>w. w\<lparr>seen_urls_json := seen\<rparr>) (logged SaveSeen w)"

text \<open>
  \<open>loadNewItems\<close> catches every error of the read and returns the empty array then. Its
  migration of old rows leaves a row that has all fields of \<open>NewItem\<close> as it is.
\<close>

definition loadNewItems :: "env \<Rightarrow> store \<Rightarrow> NewItem list \<times> store" where
  "loadNewItems env w =
     ((case loadNewItems_fault env of Some e \<Rightarrow> [] | None \<Rightarrow> new_items_json w),
      logged LoadNewItems w)"

text \<open>The deduplication key \<open>`${i.siteId}_${sha1(i.url)}`\<close>.\<close>

definition itemKey :: "env \<Rightarrow> NewItem \<Rightarrow> string" where
  "itemKey env i = siteId i @ ''_'' @ sha1_hex env (url i)"

definition appendNewItems :: "env \<Rightarrow> NewItem list \<Rightarrow> store \<Rightarrow> (js_error + unit) \<times> store" where
  "appendNewItems env items w =
     (case loadNewItems env w of
        (current, w1) \<Rightarrow>
          (let existingSet = map (itemKey env) current;
               toAdd = filter (\<lambda>i. itemKey env i \<notin> set existingSet) items
           in if length toAdd > 0
              then atomicWrite (writeNewItems_fault env)
                     (\<lambda>w. w\<lparr>new_items_json := current @ toAdd\<rparr>) (logged WriteNewItems w1)
              else (Inr (), w1)))"

section \<open>server/scanner.ts\<close>

subsection \<open>discoverSitemap\<close>

record DiscoverResult =
  url_res :: string
  status_res :: SiteStatus
  error_res :: "string option"

text \<open>The dot of a regular expression matches every code unit but a line terminator.\<close>

definition isLineTerminator :: "char \<Rightarrow> bool" where
  "isLineTerminator c \<longleftrightarrow> c = CHR 0x0A \<or> c = CHR 0x0D"

text \<open>
  \<open>line.split(/:(.+)/)[1]\<close>: the capture of the leftmost match, that is, the longest run
  of non-terminators after the first colon that is followed by one; \<open>None\<close> stands for
  \<open>undefined\<close>, when the pattern matches nowhere.
\<close>

fun colonCapture :: "string \<Rightarrow> string option" where
  "colonCapture [] = None"
| "colonCapture (c # cs) =
     (if c = CHR '':'' \<and> cs \<noteq> [] \<and> \<not> isLineTerminator (hd cs)
      then Some (takeWhile (\<lambda>x. \<not> isLineTerminator x) cs)
      else colonCapture cs)"

text \<open>\<open>foundUrl.match(/^https?:\/\//i)\<close>\<close>

definition hasHttpScheme :: "string \<Rightarrow> bool" where
  "hasHttpScheme s \<longleftrightarrow>
     startsWith (toLowerCase s) ''http://'' \<or> startsWith (toLowerCase s) ''https://''"

text \<open>
  The loop over the lines of robots.txt. \<open>Inr (Some u)\<close>: the loop assigned \<open>u\<close> to
  \<open>targetSitemapUrl\<close> and left by \<open>break\<close>; \<open>Inr None\<close>: it ran to the end; \<open>Inl\<close>: calling
  \<open>trim\<close> on \<open>undefined\<close> threw a \<open>TypeError\<close>.
\<close>

fun robotsLoop :: "string \<Rightarrow> string \<Rightarrow> string list \<Rightarrow> js_error + string option" where
  "robotsLoop protocol domain' [] = Inr None"
| "robotsLoop protocol domain' (line # lines) =
     (if startsWith (toLowerCase (trim line)) ''sitemap:''
      then (case colonCapture line of
              None \<Rightarrow> Inl (Error ''Cannot read properties of undefined'')
            | Some cap \<Rightarrow>
                (let foundUrl = trim cap
                 in if foundUrl \<noteq> []
                    then (if \<not> hasHttpScheme foundUrl
                          then (let foundUrl =
                                      (if \<not> startsWith foundUrl ''/'' then ''/'' @ foundUrl
                                       else foundUrl)
                                in Inr (Some (protocol @ domain' @ foundUrl)))
                          else Inr (Some foundUrl))
                    else robotsLoop protocol domain' lines))
      else robotsLoop protocol domain' lines)"

text \<open>
  The body of the first \<open>try\<close> block; the request is made with
  \<open>validateStatus: () => true\<close>.
\<close>

definition robotsStep :: "env \<Rightarrow> string \<Rightarrow> string \<Rightarrow> string \<Rightarrow> js_error + string option" where
  "robotsStep env protocol domain' robotsUrl =
     (case axios_get env (\<lambda>s. True) robotsUrl of
        Inl e \<Rightarrow> Inl e
      | Inr robotsRes \<Rightarrow>
          if status_code robotsRes = 200
          then robotsLoop protocol domain' (splitOn (CHR 0x0A) (data robotsRes))
          else Inr None)"

text \<open>The body of the second \<open>try\<close> block.\<close>

definition validateStep :: "env \<Rightarrow> string \<Rightarrow> js_error + DiscoverResult" where
  "validateStep env targetSitemapUrl =
     (case axios_get env defaultValidateStatus targetSitemapUrl of
        Inl e \<Rightarrow> Inl e
      | Inr sitemapRes \<Rightarrow>
          if status_code sitemapRes \<noteq> 200
          then Inr \<lparr>url_res = targetSitemapUrl, status_res = Failed,
                    error_res = Some (''HTTP '' @ showNat (status_code sitemapRes))\<rparr>
          else (case xml_parse env (data sitemapRes) of
                  Inl e \<Rightarrow> Inl e
                | Inr xmlData \<Rightarrow>
                    if urlset xmlData \<noteq> None
                    then Inr \<lparr>url_res = targetSitemapUrl, status_res = Ok, error_res = None\<rparr>
                    else if sitemapindex xmlData
                    then Inr \<lparr>url_res = targetSitemapUrl, status_res = Unsupported,
                              error_res = Some ''Type: sitemapindex''\<rparr>
                    else Inr \<lparr>url_res = targetSitemapUrl, status_res = Unsupported,
                              error_res = Some ''Unknown XML structure''\<rparr>))"

definition tryCatch :: "js_error + 'a \<Rightarrow> (js_error \<Rightarrow> js_error + 'a) \<Rightarrow> js_error + 'a" where
  "tryCatch body handler = (case body of Inl e \<Rightarrow> handler e | Inr v \<Rightarrow> Inr v)"

text \<open>
  The candidate URL after the first \<open>try\<close> block: an error there is ignored and leaves
  the default.
\<close>

definition resolveTarget :: "env \<Rightarrow> string \<Rightarrow> string" where
  "resolveTarget env domain' =
     (let protocol = getProtocol domain';
          robotsUrl = protocol @ domain' @ ''/robots.txt'';
          defaultSitemapUrl = protocol @ domain' @ ''/sitemap.xml''
      in case tryCatch (robotsStep env protocol domain' robotsUrl) (\<lambda>e. Inr None) of
           Inr (Some found) \<Rightarrow> found
         | _ \<Rightarrow> defaultSitemapUrl)"

definition discoverSitemap :: "env \<Rightarrow> string \<Rightarrow> js_error + DiscoverResult" where
  "discoverSitemap env domain' =
     (let targetSitemapUrl = resolveTarget env domain'
      in tryCatch (validateStep env targetSitemapUrl)
           (\<lambda>e. Inr \<lparr>url_res = targetSitemapUrl, status_res = Failed,
                      error_res = Some (if message e \<noteq> [] then message e
                                        else ''Network error'')\<rparr>))"

subsection \<open>fetchSitemapUrls\<close>

text \<open>
  \<open>urlEntry.map(u => u.loc).filter(Boolean)\<close> for an array, \<open>[urlEntry.loc]\<close> for a single
  entry with a truthy \<open>loc\<close>, the empty array otherwise.
\<close>

fun urlsOfEntry :: "urlEntry \<Rightarrow> string list" where
  "urlsOfEntry (UrlArray us) =
     concat (map (\<lambda>u. case u of None \<Rightarrow> [] | Some l \<Rightarrow> if l \<noteq> [] then [l] else []) us)"
| "urlsOfEntry (UrlObject None) = []"
| "urlsOfEntry (UrlObject (Some l)) = (if l \<noteq> [] then [l] else [])"
| "urlsOfEntry UrlMissing = []"

definition fetchResult :: "env \<Rightarrow> string \<Rightarrow> js_error + string list" where
  "fetchResult env target =
     (case axios_get env defaultValidateStatus target of
        Inl e \<Rightarrow> Inl e
      | Inr res \<Rightarrow>
          (case xml_parse env (data res) of
             Inl e \<Rightarrow> Inl e
           | Inr xmlData \<Rightarrow>
               (case urlset xmlData of
                  None \<Rightarrow> Inl (Error ''Not a urlset sitemap'')
                | Some urlEntry \<Rightarrow> Inr (urlsOfEntry urlEntry))))"

definition fetchSitemapUrls :: "env \<Rightarrow> string \<Rightarrow> store \<Rightarrow> (js_error + string list) \<times> store" where
  "fetchSitemapUrls env target w = (fetchResult env target, logged (HttpGet target) w)"

section \<open>The operations of \<open>api\<close>\<close>

text \<open>\<open>sites.findIndex(p)\<close>; \<open>None\<close> stands for \<open>-1\<close>.\<close>

fun findIndex :: "('a \<Rightarrow> bool) \<Rightarrow> 'a list \<Rightarrow> nat option" where
  "findIndex p [] = None"
| "findIndex p (x # xs) = (if p x then Some 0 else map_option Suc (findIndex p xs))"

text \<open>
  \<open>!siteSeen[hash]\<close>: true when the key is missing, and also when the stored URL is the
  empty string, which is falsy.
\<close>

definition notSeen :: "seen_map \<Rightarrow> string \<Rightarrow> bool" where
  "notSeen siteSeen h \<longleftrightarrow> (case map_of siteSeen h of None \<Rightarrow> True | Some u \<Rightarrow> u = [])"

text \<open>\<open>Object.keys(o)\<close> of an object whose association list has distinct keys.\<close>

definition objectKeys :: "seen_map \<Rightarrow> string list" where
  "objectKeys m = map fst m"

text \<open>
  The \<open>catch\<close> block of \<open>baseline\<close> and of \<open>scan\<close> (the two are the same text). \<open>site\<close> is
  the site object as the \<open>try\<close> block left it, \<open>k\<close> the number of calls of \<open>Date.now\<close>
  so far. The error is thrown again; when the save fails, its error is thrown instead.
\<close>

definition catchBlock ::
  "env \<Rightarrow> Site list \<Rightarrow> nat \<Rightarrow> Site \<Rightarrow> js_error \<Rightarrow> nat \<Rightarrow> store \<Rightarrow> (js_error + 'a) \<times> store" where
  "catchBlock env sites index site e k w =
     (let site = site\<lparr>status := Failed, errorMessage := message e,
                   lastResult := Some \<lparr>outcome = Failure, parsedCount = 0,
                     newOrInsertedCount = 0, durationMs = dateNow env k - dateNow env 0,
                     error = Some (message e), sampleUrls = []\<rparr>\<rparr>
      in case saveSites (saveSites_catch_fault env) (sites[index := site]) w of
           (Inl e', w') \<Rightarrow> (Inl e', w')
         | (Inr _, w') \<Rightarrow> (Inl e, w'))"

subsection \<open>baseline\<close>

text \<open>
  The loop over the fetched URLs; its state is the site's object in \<open>seenData\<close>,
  \<open>addedCount\<close> and the sample.
  \<^verbatim>\<open>
  for (const rawUrl of urls) {
      const url = utils.normalizeUrl(rawUrl);
      const hash = await utils.hashUrl(url);
      if (!seenData[site.id][hash]) { seenData[site.id][hash] = url; addedCount++; }
      if (sampleUrls.length < 5) sampleUrls.push(url);
  }
  \<close>
\<close>

fun baselineLoop ::
  "(string \<Rightarrow> string) \<Rightarrow> string list \<Rightarrow> seen_map \<times> nat \<times> string list
     \<Rightarrow> seen_map \<times> nat \<times> string list" where
  "baselineLoop H [] st = st"
| "baselineLoop H (rawUrl # rest) (siteSeen, addedCount, samples) =
     (let url' = normalizeUrl rawUrl;
          h = H url';
          (siteSeen, addedCount) =
             (if notSeen siteSeen h then (AList.update h url' siteSeen, addedCount + 1)
              else (siteSeen, addedCount));
          samples = (if length samples < 5 then samples @ [url'] else samples)
      in baselineLoop H rest (siteSeen, addedCount, samples))"

text \<open>
  The \<open>try\<close> block. A failure carries the site object as it is at that moment and the
  number of calls of \<open>Date.now\<close> made so far.
\<close>

definition baselineTry ::
  "env \<Rightarrow> Site list \<Rightarrow> nat \<Rightarrow> store \<Rightarrow> ((js_error \<times> Site \<times> nat) + Site) \<times> store" where
  "baselineTry env sites index w =
     (let site = sites ! index
      in case fetchSitemapUrls env (sitemapUrl site) w of
           (Inl e, w1) \<Rightarrow> (Inl (e, site, 1), w1)
         | (Inr urls, w1) \<Rightarrow>
             (case loadSeen env w1 of
                (Inl e, w2) \<Rightarrow> (Inl (e, site, 1), w2)
              | (Inr seenData, w2) \<Rightarrow>
                  (let seenData =
                         (if map_of seenData (id_site site) = None
                          then AList.update (id_site site) [] seenData else seenData);
                       siteSeen0 = (case map_of seenData (id_site site) of
                                      None \<Rightarrow> [] | Some m \<Rightarrow> m);
                       (siteSeen, addedCount, samples) =
                          baselineLoop (sha1_hex env) urls (siteSeen0, 0, []);
                       seenData = AList.update (id_site site) siteSeen seenData
                   in case saveSeen env seenData w2 of
                        (Inl e, w3) \<Rightarrow> (Inl (e, site, 1), w3)
                      | (Inr _, w3) \<Rightarrow>
                          (let site = site\<lparr>baselineReady := True,
                                 baselineAt := Some (toISOString env 0),
                                 status := Ok, errorMessage := [],
                                 seenCount := length (objectKeys siteSeen),
                                 lastResult := Some \<lparr>outcome = Success,
                                   parsedCount = length urls,
                                   newOrInsertedCount = addedCount,
                                   durationMs = dateNow env 1 - dateNow env 0,
                                   error = None, sampleUrls = samples\<rparr>\<rparr>
                           in case saveSites (saveSites_fault env) (sites[index := site]) w3 of
                                (Inl e, w4) \<Rightarrow> (Inl (e, site, 2), w4)
                              | (Inr _, w4) \<Rightarrow> (Inr site, w4)))))"

definition baseline :: "env \<Rightarrow> string \<Rightarrow> store \<Rightarrow> (js_error + Site) \<times> store" where
  "baseline env ident w =
     (case loadSites env w of
        (Inl e, w1) \<Rightarrow> (Inl e, w1)
      | (Inr sites, w1) \<Rightarrow>
          (case findIndex (\<lambda>s. id_site s = ident) sites of
             None \<Rightarrow> (Inl (Error ''Site not found''), w1)
           | Some index \<Rightarrow>
               (case baselineTry env sites index w1 of
                  (Inr site, w2) \<Rightarrow> (Inr site, w2)
                | (Inl (e, site, k), w2) \<Rightarrow> catchBlock env sites index site e k w2)))"

subsection \<open>scan\<close>

text \<open>
  \<^verbatim>\<open>
  for (const rawUrl of urls) {
      const url = utils.normalizeUrl(rawUrl);
      const hash = await utils.hashUrl(url);
      if (!siteSeen[hash]) { siteSeen[hash] = url; newUrls.push(url); }
  }
  \<close>
\<close>

fun scanLoop ::
  "(string \<Rightarrow> string) \<Rightarrow> string list \<Rightarrow> seen_map \<times> string list \<Rightarrow> seen_map \<times> string list" where
  "scanLoop H [] st = st"
| "scanLoop H (rawUrl # rest) (siteSeen, newUrls) =
     (let url' = normalizeUrl rawUrl;
          h = H url'
      in if notSeen siteSeen h
         then scanLoop H rest (AList.update h url' siteSeen, newUrls @ [url'])
         else scanLoop H rest (siteSeen, newUrls))"

text \<open>The item pushed for the \<open>k\<close>-th new URL.\<close>

definition buildItem :: "env \<Rightarrow> Site \<Rightarrow> nat \<Rightarrow> string \<Rightarrow> NewItem" where
  "buildItem env site k url' =
     (let classification = classifyUrl (url_pathname env) url';
          keyword = extractGameKeyword (url_pathname env) url';
          reviewStatus' = (if classification = Game then Pending else Not_game);
          title' = fetchPageTitle env url'
      in \<lparr>id_item = ''new_'' @ uuid env k, siteId = id_site site, domain_item = domain site,
           url = url', keywordAuto = keyword, keywordFinal = keyword,
           reviewStatus = reviewStatus', urlType = classification, title = title',
           discoveredAt = toISOString env k, sourceSitemapUrl = sitemapUrl site\<rparr>)"

fun buildItems :: "env \<Rightarrow> Site \<Rightarrow> nat \<Rightarrow> string list \<Rightarrow> NewItem list" where
  "buildItems env site k [] = []"
| "buildItems env site k (url' # rest) = buildItem env site k url' # buildItems env site (Suc k) rest"

text \<open>
  \<^verbatim>\<open>
  for (const item of newItemsFound) {
      const hash = await utils.hashUrl(item.url);
      siteSeen[hash] = item.url;
  }
  \<close>
\<close>

definition mergeSeen :: "(string \<Rightarrow> string) \<Rightarrow> NewItem list \<Rightarrow> seen_map \<Rightarrow> seen_map" where
  "mergeSeen H newItemsFound siteSeen =
     foldl (\<lambda>m item. AList.update (H (url item)) (url item) m) siteSeen newItemsFound"

definition scanTry ::
  "env \<Rightarrow> Site list \<Rightarrow> nat \<Rightarrow> store
     \<Rightarrow> ((js_error \<times> Site \<times> nat) + (Site \<times> NewItem list)) \<times> store" where
  "scanTry env sites index w =
     (let site = sites ! index
      in case fetchSitemapUrls env (sitemapUrl site) w of
           (Inl e, w1) \<Rightarrow> (Inl (e, site, 1), w1)
         | (Inr urls, w1) \<Rightarrow>
             (case loadSeen env w1 of
                (Inl e, w2) \<Rightarrow> (Inl (e, site, 1), w2)
              | (Inr seenData, w2) \<Rightarrow>
                  (let siteSeen0 = (case map_of seenData (id_site site) of
                                      None \<Rightarrow> [] | Some m \<Rightarrow> m);
                       (siteSeen, newUrls) = scanLoop (sha1_hex env) urls (siteSeen0, []);
                       newItemsFound = buildItems env site 0 newUrls;
                       w3 = w2\<lparr>io_log := io_log w2 @ map FetchPageTitle newUrls\<rparr>;
                       siteSeen = (if length newItemsFound > 0
                                   then mergeSeen (sha1_hex env) newItemsFound siteSeen
                                   else siteSeen);
                       (saved, w4) =
                          (if length newItemsFound > 0
                           then (case saveSeen env
                                        (AList.update (id_site site) siteSeen seenData) w3 of
                                   (Inl e, w') \<Rightarrow> (Inl e, w')
                                 | (Inr _, w') \<Rightarrow> appendNewItems env newItemsFound w')
                           else (Inr (), w3))
                   in case saved of
                        Inl e \<Rightarrow> (Inl (e, site, 1), w4)
                      | Inr _ \<Rightarrow>
                          (let site = site\<lparr>lastScanAt :=
                                   Some (toISOString env (length newItemsFound)),
                                 status := Ok,
                                 seenCount := length (objectKeys siteSeen),
                                 lastNewFound := length newItemsFound,
                                 lastResult := Some \<lparr>outcome = Success,
                                   parsedCount = length urls,
                                   newOrInsertedCount = length newItemsFound,
                                   durationMs = dateNow env 1 - dateNow env 0,
                                   error = None,
                                   sampleUrls = map url (take 5 newItemsFound)\<rparr>\<rparr>
                           in case saveSites (saveSites_fault env) (sites[index := site]) w4 of
                                (Inl e, w5) \<Rightarrow> (Inl (e, site, 2), w5)
                              | (Inr _, w5) \<Rightarrow> (Inr (site, newItemsFound), w5)))))"

definition scan :: "env \<Rightarrow> string \<Rightarrow> store \<Rightarrow> (js_error + (Site \<times> NewItem list)) \<times> store" where
  "scan env ident w =
     (case loadSites env w of
        (Inl e, w1) \<Rightarrow> (Inl e, w1)
      | (Inr sites, w1) \<Rightarrow>
          (case findIndex (\<lambda>s. id_site s = ident) sites of
             None \<Rightarrow> (Inl (Error ''Site not found''), w1)
           | Some index \<Rightarrow>
               if \<not> baselineReady (sites ! index)
               then (Inl (Error ''Baseline not ready''), w1)
               else (case scanTry env sites index w1 of
                       (Inr r, w2) \<Rightarrow> (Inr r, w2)
                     | (Inl (e, site, k), w2) \<Rightarrow> catchBlock env sites index site e k w2)))"

section \<open>Example data\<close>

text \<open>
  A small environment for concrete runs: every request is answered with status 200, the
  parsed document is a \<open>urlset\<close> with the given \<open>loc\<close> values, the digest is replaced by
  an injective stand-in, and no storage call fails.
\<close>

definition exampleEnv :: "string list \<Rightarrow> env" where
  "exampleEnv locs =
     \<lparr>http_request = (\<lambda>u. Inr \<lparr>status_code = 200, data = ''<urlset>...</urlset>''\<rparr>),
      xml_parse = (\<lambda>b. Inr \<lparr>urlset = Some (UrlArray (map Some locs)), sitemapindex = False\<rparr>),
      sha1_hex = (\<lambda>u. ''sha1:'' @ u),
      url_pathname = (\<lambda>u. if startsWith u ''https://site.com'' then Some (drop 16 u) else None),
      fetchPageTitle = (\<lambda>u. None),
      uuid = (\<lambda>k. showNat k),
      toISOString = (\<lambda>k. ''2024-01-01T00:00:0'' @ showNat k @ ''.000Z''),
      dateNow = (\<lambda>k. 1000 + int k),
      loadSites_fault = None, loadSeen_fault = None, saveSeen_fault = None,
      loadNewItems_fault = None, writeNewItems_fault = None, saveSites_fault = None,
      saveSites_catch_fault = None\<rparr>"

definition exampleSite :: Site where
  "exampleSite =
     \<lparr>id_site = ''site_1a2b3c4d'', domain = ''site.com'',
      sitemapUrl = ''https://site.com/sitemap.xml'', status = Ok, errorMessage = [],
      baselineReady = True, baselineAt = None, lastScanAt = None, seenCount = 0,
      lastNewFound = 0, lastResult = None, createdAt = ''2024-01-01T00:00:00.000Z''\<rparr>"

definition exampleStore :: "Site \<Rightarrow> seen_map \<Rightarrow> store" where
  "exampleStore site siteSeen =
     \<lparr>sites_json = [site], seen_urls_json = [(id_site site, siteSeen)],
      new_items_json = [], io_log = []\<rparr>"

text \<open>
  An environment for \<open>discoverSitemap\<close>: \<open>robots\<close> answers the request for robots.txt,
  \<open>answer\<close> every other request, and \<open>parsed\<close> is what the XML parser returns.
\<close>

definition exampleWeb ::
  "js_error + http_response \<Rightarrow> js_error + http_response \<Rightarrow> js_error + xmlData \<Rightarrow> env" where
  "exampleWeb robots answer parsed =
     (exampleEnv [])\<lparr>http_request := (\<lambda>u. if endsWith u ''/robots.txt'' then robots else answer),
                      xml_parse := (\<lambda>b. parsed)\<rparr>"

definition exampleRobots :: "js_error + http_response" where
  "exampleRobots =
     Inr \<lparr>status_code = 200,
          data = ''User-agent: *'' @ [CHR 0x0A] @ ''Sitemap: /s1.xml'' @ [CHR 0x0A]\<rparr>"

section \<open>Auxiliary facts\<close>

lemma findIndex_Some: "findIndex p xs = Some i \<Longrightarrow> i < length xs \<and> p (xs ! i)"
proof (induction xs arbitrary: i)
  case Nil then show ?case by simp
next
  case (Cons x xs)
  then show ?case by (cases "p x") (auto split: if_splits)
qed

lemma length_buildItems: "length (buildItems env site k us) = length us"
  by (induction us arbitrary: k) auto

lemma map_url_buildItems: "map url (buildItems env site k us) = us"
  by (induction us arbitrary: k) (auto simp: buildItem_def Let_def)

lemma buildItems_Nil: "buildItems env site k us = [] \<longleftrightarrow> us = []"
  by (cases us) auto

lemmas storage_defs = loadSites_def saveSites_def loadSeen_def saveSeen_def loadNewItems_def
  appendNewItems_def atomicWrite_def logged_def itemKey_def fetchSitemapUrls_def fetchResult_def
  axios_get_def defaultValidateStatus_def

lemmas string_defs = normalizeUrl_def trim_def trimStart_def trimEnd_def isWhiteSpace_def
  endsWith_def startsWith_def

lemmas example_defs = exampleEnv_def exampleSite_def exampleStore_def

lemma findIndex_update:
  "findIndex p xs = Some i \<Longrightarrow> p y \<Longrightarrow> findIndex p (xs[i := y]) = Some i"
proof (induction xs arbitrary: i)
  case Nil then show ?case by simp
next
  case (Cons x xs)
  then show ?case by (cases "p x") (auto split: if_splits)
qed

lemma notSeen_update:
  "notSeen (AList.update k v m) h \<longleftrightarrow> (if h = k then v = [] else notSeen m h)"
  by (simp add: notSeen_def update_conv')

lemma keys_update: "fst ` set (AList.update k v m) = insert k (fst ` set m)"
  by (induction m) auto

lemma new_keys_insert:
  "P x \<Longrightarrow> {h \<in> insert x K. P h} = insert x ({h \<in> K. P h \<and> h \<noteq> x})"
  "\<not> P x \<Longrightarrow> {h \<in> insert x K. P h} = {h \<in> K. P h}"
  by auto

section \<open>Auxiliary facts about discoverSitemap\<close>

lemma robotsLoop_found_nonempty: "robotsLoop p d ls = Inr (Some u) \<Longrightarrow> u \<noteq> []"
  by (induction ls) (auto simp: Let_def split: if_splits option.splits)

lemma resolveTarget_nonempty: "resolveTarget env d \<noteq> []"
  by (auto simp: resolveTarget_def tryCatch_def robotsStep_def Let_def
      dest: robotsLoop_found_nonempty split: sum.splits option.splits if_splits)

lemma resolveTarget_cases:
  "(\<forall>found. robotsStep env (getProtocol d) d (getProtocol d @ d @ ''/robots.txt'') = Inr (Some found)
       \<longrightarrow> resolveTarget env d = found)
   \<and> ((\<forall>found. robotsStep env (getProtocol d) d (getProtocol d @ d @ ''/robots.txt'') \<noteq> Inr (Some found))
       \<longrightarrow> resolveTarget env d = getProtocol d @ d @ ''/sitemap.xml'')"
  by (auto simp: resolveTarget_def tryCatch_def Let_def split: sum.splits option.splits)

lemma getProtocol_example: "getProtocol ''example.com'' = ''https://''"
  by (simp add: getProtocol_def isLocal_def startsWith_def ipv4Regex_def octetDot_def
        isDigit_def)

lemma resolveTarget_example:
  "resolveTarget (exampleWeb exampleRobots answer parsed) ''example.com''
     = ''https://example.com/s1.xml''"
  by (simp add: resolveTarget_def getProtocol_example exampleWeb_def exampleEnv_def
      exampleRobots_def tryCatch_def robotsStep_def axios_get_def string_defs toLowerCase_def
      toLowerChar_def hasHttpScheme_def isLineTerminator_def)

lemma robotsStep_example:
  "robotsStep (exampleWeb exampleRobots answer parsed) (getProtocol ''example.com'') ''example.com''
      (getProtocol ''example.com'' @ ''example.com'' @ ''/robots.txt'')
    = Inr (Some ''https://example.com/s1.xml'')"
  by (simp add: getProtocol_example exampleWeb_def exampleEnv_def
      exampleRobots_def robotsStep_def axios_get_def string_defs toLowerCase_def
      toLowerChar_def hasHttpScheme_def isLineTerminator_def)

section \<open>Failed scans\<close>





section \<open>Properties of normalizeUrl\<close>

lemma cut_at_indexOf:
  "(case indexOf s c of None \<Rightarrow> s | Some i \<Rightarrow> take i s) = takeWhile (\<lambda>x. x \<noteq> c) s"
  by (induction s) (auto split: option.splits)

lemma set_trim: "set (trim s) \<subseteq> set s"
proof -
  have "set (trimEnd t) \<subseteq> set t" for t
    unfolding trimEnd_def using set_dropWhileD[of _ isWhiteSpace "rev t"] by auto
  moreover have "set (trimStart s) \<subseteq> set s"
    unfolding trimStart_def using set_dropWhileD[of _ isWhiteSpace s] by auto
  ultimately show ?thesis unfolding trim_def by blast
qed

lemma length_trim: "length (trim s) \<le> length s"
proof -
  have "length (trimEnd t) \<le> length t" for t
    unfolding trimEnd_def using length_dropWhile_le[of isWhiteSpace "rev t"] by simp
  from this[of "trimStart s"] show ?thesis
    unfolding trim_def trimStart_def using length_dropWhile_le[of isWhiteSpace s] by simp
qed

lemma endsWith_slash: "endsWith t ''/'' \<longleftrightarrow> t \<noteq> [] \<and> last t = CHR ''/''"
proof (cases t rule: rev_cases)
  case Nil then show ?thesis by (simp add: endsWith_def)
next
  case (snoc ys y) then show ?thesis by (auto simp: endsWith_def)
qed

lemma endsWith_butlast: "endsWith t ''/'' \<Longrightarrow> t = butlast t @ ''/''"
  by (cases t rule: rev_cases) (auto simp: endsWith_def)

lemma normalizeUrl_alt:
  "normalizeUrl x =
     (let t = takeWhile (\<lambda>c. c \<noteq> CHR ''#'') (trim x)
      in if endsWith t ''/'' then butlast t else t)"
  by (simp add: normalizeUrl_def cut_at_indexOf Let_def)

lemma normalizeUrl_no_hash: "CHR ''#'' \<notin> set (normalizeUrl x)"
proof -
  have "CHR ''#'' \<notin> set (takeWhile (\<lambda>c. c \<noteq> CHR ''#'') (trim x))"
    using set_takeWhileD by fastforce
  then show ?thesis
    by (auto simp: normalizeUrl_alt Let_def dest: in_set_butlastD)
qed

text \<open>
  Claim C2, as amended. \<open>normalizeUrl\<close> trims, drops everything from the first \<open>#\<close> onward
  and then removes exactly one trailing slash; the documented example holds. Applying it
  twice gives the same result as applying it once exactly when the first result has no
  surrounding white space and no trailing slash left.
\<close>

theorem normalizeUrl_strips_one_slash_and_fragment:
  "normalizeUrl ''http://x.com/a/#frag'' = ''http://x.com/a''
   \<and> CHR ''#'' \<notin> set (normalizeUrl x)
   \<and> (let t = takeWhile (\<lambda>c. c \<noteq> CHR ''#'') (trim x)
      in (if endsWith t ''/'' then t = normalizeUrl x @ ''/'' else t = normalizeUrl x))
   \<and> (normalizeUrl (normalizeUrl x) = normalizeUrl x
        \<longleftrightarrow> trim (normalizeUrl x) = normalizeUrl x \<and> \<not> endsWith (normalizeUrl x) ''/'')"
proof (intro conjI)
  show "normalizeUrl ''http://x.com/a/#frag'' = ''http://x.com/a''"
    by (simp add: normalizeUrl_def trim_def trimStart_def trimEnd_def isWhiteSpace_def
        endsWith_def)
  show "CHR ''#'' \<notin> set (normalizeUrl x)" by (rule normalizeUrl_no_hash)
  show "let t = takeWhile (\<lambda>c. c \<noteq> CHR ''#'') (trim x)
      in (if endsWith t ''/'' then t = normalizeUrl x @ ''/'' else t = normalizeUrl x)"
    by (simp add: normalizeUrl_alt Let_def endsWith_butlast)
  define y where "y = normalizeUrl x"
  have nohash: "CHR ''#'' \<notin> set (trim y)"
    using set_trim[of y] normalizeUrl_no_hash[of x] y_def by auto
  then have tw: "takeWhile (\<lambda>c. c \<noteq> CHR ''#'') (trim y) = trim y"
    by (simp add: takeWhile_eq_all_conv) metis
  have ny: "normalizeUrl y = (if endsWith (trim y) ''/'' then butlast (trim y) else trim y)"
    by (simp add: normalizeUrl_alt tw)
  have "normalizeUrl y = y \<longleftrightarrow> trim y = y \<and> \<not> endsWith y ''/''"
  proof
    assume eq: "normalizeUrl y = y"
    show "trim y = y \<and> \<not> endsWith y ''/''"
    proof (cases "endsWith (trim y) ''/''")
      case True
      then have "length (normalizeUrl y) < length (trim y)"
        by (simp add: ny endsWith_slash)
      with length_trim[of y] eq show ?thesis by simp
    next
      case False
      with eq ny show ?thesis by simp
    qed
  next
    assume "trim y = y \<and> \<not> endsWith y ''/''"
    then show "normalizeUrl y = y" by (simp add: ny)
  qed
  then show "normalizeUrl (normalizeUrl x) = normalizeUrl x
        \<longleftrightarrow> trim (normalizeUrl x) = normalizeUrl x \<and> \<not> endsWith (normalizeUrl x) ''/''"
    by (simp add: y_def)
qed

theorem normalizeUrl_strips_one_slash_and_fragment_witness:
  "endsWith (takeWhile (\<lambda>c. c \<noteq> CHR ''#'') (trim '' http://x.com/a/#frag'')) ''/''
   \<and> takeWhile (\<lambda>c. c \<noteq> CHR ''#'') (trim '' http://x.com/a/#frag'')
       = normalizeUrl '' http://x.com/a/#frag'' @ ''/''
   \<and> normalizeUrl (normalizeUrl '' http://x.com/a/#frag'') = normalizeUrl '' http://x.com/a/#frag''"
  using normalizeUrl_strips_one_slash_and_fragment [of "'' http://x.com/a/#frag''"]
  by (simp add: normalizeUrl_def trim_def trimStart_def trimEnd_def isWhiteSpace_def
        endsWith_def)

text \<open>
  Counterexample to C2 as stated: with two trailing slashes the first application removes
  one slash and the second application removes the other, so the function is not idempotent.
\<close>

theorem normalizeUrl_not_idempotent:
  "normalizeUrl (normalizeUrl ''http://x.com/a//'') \<noteq> normalizeUrl ''http://x.com/a//''"
  by (simp add: normalizeUrl_def trim_def trimStart_def trimEnd_def isWhiteSpace_def
        endsWith_def)

section \<open>The result of discoverSitemap\<close>

text \<open>
  What \<open>discoverSitemap\<close> makes of the answer to the request for the candidate URL, in terms
  of what the code tests. A response that the client hands over, which is one with a status
  from 200 to 299, gives \<open>failed\<close> with \<open>HTTP {code}\<close> unless the status is 200; with status
  200, a truthy \<open>urlset\<close> property of the parsed body gives \<open>ok\<close>, otherwise a truthy
  \<open>sitemapindex\<close> property gives \<open>unsupported\<close> with \<open>Type: sitemapindex\<close>, and otherwise the
  result is \<open>unsupported\<close> with \<open>Unknown XML structure\<close>; an exception of the request or of
  the parser gives \<open>failed\<close> with the message of the exception, or with \<open>Network error\<close>
  when that message is empty.
\<close>

lemma discoverSitemap_cases:
  "(\<forall>res. http_request env (resolveTarget env d) = Inr res
        \<and> 200 \<le> status_code res \<and> status_code res < 300 \<and> status_code res \<noteq> 200 \<longrightarrow>
      discoverSitemap env d =
        Inr \<lparr>url_res = resolveTarget env d, status_res = Failed,
             error_res = Some (''HTTP '' @ showNat (status_code res))\<rparr>)
   \<and> (\<forall>res x. http_request env (resolveTarget env d) = Inr res \<and> status_code res = 200
        \<and> xml_parse env (data res) = Inr x \<and> urlset x \<noteq> None \<longrightarrow>
      discoverSitemap env d =
        Inr \<lparr>url_res = resolveTarget env d, status_res = Ok, error_res = None\<rparr>)
   \<and> (\<forall>res x. http_request env (resolveTarget env d) = Inr res \<and> status_code res = 200
        \<and> xml_parse env (data res) = Inr x \<and> urlset x = None \<and> sitemapindex x \<longrightarrow>
      discoverSitemap env d =
        Inr \<lparr>url_res = resolveTarget env d, status_res = Unsupported,
             error_res = Some ''Type: sitemapindex''\<rparr>)
   \<and> (\<forall>res x. http_request env (resolveTarget env d) = Inr res \<and> status_code res = 200
        \<and> xml_parse env (data res) = Inr x \<and> urlset x = None \<and> \<not> sitemapindex x \<longrightarrow>
      discoverSitemap env d =
        Inr \<lparr>url_res = resolveTarget env d, status_res = Unsupported,
             error_res = Some ''Unknown XML structure''\<rparr>)
   \<and> (\<forall>e. (http_request env (resolveTarget env d) = Inl e
           \<or> (\<exists>res. http_request env (resolveTarget env d) = Inr res \<and> status_code res = 200
                 \<and> xml_parse env (data res) = Inl e)) \<longrightarrow>
      discoverSitemap env d =
        Inr \<lparr>url_res = resolveTarget env d, status_res = Failed,
             error_res = Some (if message e \<noteq> [] then message e else ''Network error'')\<rparr>)"
  by (auto simp: discoverSitemap_def validateStep_def tryCatch_def axios_get_def
      defaultValidateStatus_def Let_def)

text \<open>
  A status outside 200 to 299 does not reach the test \<open>sitemapRes.status !== 200\<close>: the
  request for the candidate URL is sent without the \<open>validateStatus\<close> option that the
  request for robots.txt carries, so the client rejects the promise, and the \<open>catch\<close> block
  reports the client's message.
\<close>

lemma discoverSitemap_status_rejected:
  assumes "http_request env (resolveTarget env d) = Inr res"
    and "\<not> (200 \<le> status_code res \<and> status_code res < 300)"
  shows "discoverSitemap env d =
        Inr \<lparr>url_res = resolveTarget env d, status_res = Failed,
             error_res = Some (''Request failed with status code '' @ showNat (status_code res))\<rparr>"
  using assms
  by (auto simp: discoverSitemap_def validateStep_def tryCatch_def axios_get_def
      defaultValidateStatus_def Let_def)

text \<open>
  Claim C3 at three responses of the candidate URL \<open>https://example.com/s1.xml\<close>. For a
  response with status 404 the error is the client's \<open>Request failed with status code 404\<close>,
  not \<open>HTTP 404\<close>. For status 200 with the body \<open><urlset/>\<close>, whose root is \<open>urlset\<close>, the
  parsed property is the empty string, the test \<open>if (xmlData.urlset)\<close> fails, and the result
  is \<open>unsupported\<close> with \<open>Unknown XML structure\<close>, not \<open>ok\<close>. For status 200 with the body
  \<open><sitemapindex/>\<close> the result is again \<open>unsupported\<close> with \<open>Unknown XML structure\<close>, not
  with \<open>Type: sitemapindex\<close>.
\<close>

theorem discoverSitemap_404_and_empty_root:
  "discoverSitemap (exampleWeb exampleRobots (Inr \<lparr>status_code = 404, data = ''Not Found''\<rparr>)
         (Inl (Error ''unused''))) ''example.com''
       = Inr \<lparr>url_res = ''https://example.com/s1.xml'', status_res = Failed,
              error_res = Some ''Request failed with status code 404''\<rparr>
   \<and> ''Request failed with status code 404'' \<noteq> ''HTTP 404''
   \<and> discoverSitemap (exampleWeb exampleRobots (Inr \<lparr>status_code = 200, data = ''<urlset/>''\<rparr>)
         (Inr \<lparr>urlset = None, sitemapindex = False\<rparr>)) ''example.com''
       = Inr \<lparr>url_res = ''https://example.com/s1.xml'', status_res = Unsupported,
              error_res = Some ''Unknown XML structure''\<rparr>
   \<and> discoverSitemap (exampleWeb exampleRobots
         (Inr \<lparr>status_code = 200, data = ''<sitemapindex/>''\<rparr>)
         (Inr \<lparr>urlset = None, sitemapindex = False\<rparr>)) ''example.com''
       = Inr \<lparr>url_res = ''https://example.com/s1.xml'', status_res = Unsupported,
              error_res = Some ''Unknown XML structure''\<rparr>"
proof -
  have n: "showNat 404 = ''404''"
    by (simp add: showNat.simps)
  show ?thesis
    unfolding discoverSitemap_def resolveTarget_example
    by (simp add: validateStep_def tryCatch_def axios_get_def defaultValidateStatus_def
        exampleWeb_def exampleEnv_def endsWith_def n)
qed

section \<open>Properties of getProtocol\<close>

lemma digit_not_dot: "\<not> isDigit (CHR ''.'')" "\<not> isDigit (CHR '':'')"
  by (simp_all add: isDigit_def)

lemma startsWith_single: "startsWith r [c] \<longleftrightarrow> (\<exists>t. r = c # t)"
  by (cases r) (auto simp: startsWith_def)

lemma digit_run_split:
  assumes "list_all isDigit a" "\<not> isDigit c"
  shows "takeWhile isDigit (a @ c # r) = a" "dropWhile isDigit (a @ c # r) = c # r"
  using assms by (induction a) auto

lemma octetDot_iff: "octetDot s = Some r \<longleftrightarrow> (\<exists>a. octet a \<and> s = a @ ''.'' @ r)"
proof
  assume h: "octetDot s = Some r"
  let ?a = "takeWhile isDigit s"
  from h have len: "1 \<le> length ?a" "length ?a \<le> 3"
    and dr: "dropWhile isDigit s = CHR ''.'' # r"
    by (auto simp: octetDot_def Let_def startsWith_single split: if_splits)
  have "list_all isDigit ?a" by (simp add: list_all_iff) (meson set_takeWhileD)
  with len have "octet ?a" by (auto simp: octet_def)
  moreover have "s = ?a @ ''.'' @ r"
    using takeWhile_dropWhile_id[of isDigit s] dr by simp
  ultimately show "\<exists>a. octet a \<and> s = a @ ''.'' @ r" by blast
next
  assume "\<exists>a. octet a \<and> s = a @ ''.'' @ r"
  then obtain a where a: "octet a" and s: "s = a @ CHR ''.'' # r" by auto
  from a have d: "list_all isDigit a" by (simp add: octet_def)
  show "octetDot s = Some r"
    using a digit_run_split[OF d digit_not_dot(1), of r]
    by (cases a) (auto simp: octetDot_def s octet_def startsWith_def)
qed

lemma lastOctetPort_iff: "lastOctetPort s \<longleftrightarrow> (\<exists>e p. octet e \<and> portSuffix p \<and> s = e @ p)"
proof
  assume h: "lastOctetPort s"
  let ?e = "takeWhile isDigit s" and ?p = "dropWhile isDigit s"
  have "list_all isDigit ?e" by (simp add: list_all_iff) (meson set_takeWhileD)
  with h have "octet ?e" by (auto simp: lastOctetPort_def Let_def octet_def)
  moreover from h have "portSuffix ?p" by (auto simp: lastOctetPort_def Let_def portSuffix_def)
  ultimately show "\<exists>e p. octet e \<and> portSuffix p \<and> s = e @ p"
    using takeWhile_dropWhile_id[of isDigit s] by metis
next
  assume "\<exists>e p. octet e \<and> portSuffix p \<and> s = e @ p"
  then obtain e p where e: "octet e" and p: "portSuffix p" and s: "s = e @ p" by auto
  from e have d: "list_all isDigit e" by (simp add: octet_def)
  show "lastOctetPort s"
  proof (cases p)
    case Nil
    with d have "takeWhile isDigit s = e" "dropWhile isDigit s = []"
      by (auto simp: s list_all_iff)
    with e show ?thesis by (cases e) (auto simp: lastOctetPort_def octet_def)
  next
    case (Cons c t)
    with p have c: "c = CHR '':''" and t: "t \<noteq> []" "list_all isDigit t"
      by (auto simp: portSuffix_def startsWith_def)
    from digit_run_split[OF d digit_not_dot(2), of t] e t show ?thesis
      by (cases e) (auto simp: lastOctetPort_def octet_def s Cons c startsWith_def)
  qed
qed

lemma ipv4Regex_iff: "ipv4Regex d \<longleftrightarrow> bareIPv4 d"
proof
  assume "ipv4Regex d"
  then obtain r1 r2 r3 where "octetDot d = Some r1" "octetDot r1 = Some r2"
    "octetDot r2 = Some r3" "lastOctetPort r3"
    by (auto simp: ipv4Regex_def split: option.splits)
  then obtain a b c e p where "octet a" "d = a @ ''.'' @ r1" "octet b" "r1 = b @ ''.'' @ r2"
    "octet c" "r2 = c @ ''.'' @ r3" "octet e" "portSuffix p" "r3 = e @ p"
    unfolding octetDot_iff lastOctetPort_iff by blast
  then have "d = a @ ''.'' @ b @ ''.'' @ c @ ''.'' @ e @ p \<and>
        octet a \<and> octet b \<and> octet c \<and> octet e \<and> portSuffix p" by simp
  then show "bareIPv4 d"
    unfolding bareIPv4_def by blast
next
  assume "bareIPv4 d"
  then obtain a b c e p where d: "d = a @ ''.'' @ b @ ''.'' @ c @ ''.'' @ e @ p"
    and o: "octet a" "octet b" "octet c" "octet e" "portSuffix p"
    unfolding bareIPv4_def by blast
  have 1: "octetDot d = Some (b @ ''.'' @ c @ ''.'' @ e @ p)"
    unfolding octetDot_iff d using o by blast
  have 2: "octetDot (b @ ''.'' @ c @ ''.'' @ e @ p) = Some (c @ ''.'' @ e @ p)"
    unfolding octetDot_iff using o by blast
  have 3: "octetDot (c @ ''.'' @ e @ p) = Some (e @ p)"
    unfolding octetDot_iff using o by blast
  have 4: "lastOctetPort (e @ p)"
    unfolding lastOctetPort_iff using o by blast
  show "ipv4Regex d" using 1 2 3 4 by (simp add: ipv4Regex_def)
qed

lemma startsWith_iff: "startsWith s p \<longleftrightarrow> (\<exists>r. s = p @ r)"
  unfolding startsWith_def by (metis append_eq_conv_conj append_take_drop_id)

lemma includesStr_iff: "includesStr s p \<longleftrightarrow> (\<exists>l r. s = l @ p @ r)"
proof (induction s)
  case Nil then show ?case by auto
next
  case (Cons x xs)
  show ?case
  proof
    assume "includesStr (x # xs) p"
    then consider "startsWith (x # xs) p" | "includesStr xs p" by auto
    then show "\<exists>l r. x # xs = l @ p @ r"
    proof cases
      case 1 then show ?thesis unfolding startsWith_iff by (metis append_Nil)
    next
      case 2 with Cons obtain l r where "xs = l @ p @ r" by blast
      then have "x # xs = (x # l) @ p @ r" by simp
      then show ?thesis by blast
    qed
  next
    assume "\<exists>l r. x # xs = l @ p @ r"
    then obtain l r where lr: "x # xs = l @ p @ r" by blast
    show "includesStr (x # xs) p"
    proof (cases l)
      case Nil
      with lr have "startsWith (x # xs) p" unfolding startsWith_iff by auto
      then show ?thesis by simp
    next
      case (Cons y l') with lr have "xs = l' @ p @ r" by simp
      with Cons.IH show ?thesis by auto
    qed
  qed
qed

text \<open>
  Claim C4, as amended. The scheme is \<open>http://\<close> exactly when the domain starts with
  \<open>localhost\<close>, \<open>127.0.0.1\<close> or \<open>0.0.0.0\<close>, contains \<open>localhost:\<close>, or is a bare IPv4
  address with an optional port; for every other domain it is \<open>https://\<close>.
\<close>

theorem getProtocol_http_iff:
  "(getProtocol d = ''http://'' \<longleftrightarrow>
      (\<exists>r. d = ''localhost'' @ r) \<or> (\<exists>r. d = ''127.0.0.1'' @ r) \<or>
      (\<exists>r. d = ''0.0.0.0'' @ r) \<or> (\<exists>l r. d = l @ ''localhost:'' @ r) \<or>
      bareIPv4 d)
   \<and> (getProtocol d = ''http://'' \<or> getProtocol d = ''https://'')"
  unfolding getProtocol_def isLocal_def ipv4Regex_iff startsWith_iff includesStr_iff
  by simp

theorem getProtocol_http_iff_witness:
  "bareIPv4 ''192.168.1.10:8080'' \<and> getProtocol ''192.168.1.10:8080'' = ''http://''
   \<and> getProtocol ''example.com'' = ''https://''"
proof -
  have "''192.168.1.10:8080'' = ''192'' @ ''.'' @ ''168'' @ ''.'' @ ''1'' @ ''.'' @ ''10'' @ '':8080'' \<and>
        octet ''192'' \<and> octet ''168'' \<and> octet ''1'' \<and> octet ''10'' \<and> portSuffix '':8080''"
    by (simp add: octet_def portSuffix_def isDigit_def startsWith_def)
  then have b: "bareIPv4 ''192.168.1.10:8080''"
    unfolding bareIPv4_def by blast
  have "getProtocol ''example.com'' = ''https://''"
    by (simp add: getProtocol_def isLocal_def startsWith_def ipv4Regex_def octetDot_def
        isDigit_def)
  with b getProtocol_http_iff [of "''192.168.1.10:8080''"] show ?thesis by blast
qed

text \<open>
  Counterexample to C4 as stated: \<open>localhost.example.com\<close> is none of the three listed
  names and is not a bare IPv4 address, yet its scheme is \<open>http://\<close>, because the names are
  tested as prefixes.
\<close>

theorem getProtocol_localhost_prefix_http:
  "\<not> (getProtocol ''localhost.example.com'' = ''http://'' \<longleftrightarrow>
        ''localhost.example.com'' = ''localhost'' \<or> ''localhost.example.com'' = ''127.0.0.1'' \<or>
        ''localhost.example.com'' = ''0.0.0.0'' \<or> ipv4Regex ''localhost.example.com'')"
  by (simp add: getProtocol_def isLocal_def startsWith_def ipv4Regex_def octetDot_def
        isDigit_def)

section \<open>Scan before baseline\<close>

text \<open>
  Claim C5, as amended. When the site has \<open>baselineReady = false\<close>, \<open>scan\<close> first reads the
  site list, which is how it finds the site, and then throws \<open>Baseline not ready\<close> (when
  that read throws, its error is thrown instead). That read is the only call recorded in
  the log: no request is sent, the seen-set and the item store are not accessed and nothing
  is written, so the site list, the seen-set and the item store are untouched and no failure
  summary is stored.
\<close>

theorem scan_without_baseline:
  assumes "findIndex (\<lambda>s. id_site s = ident) (sites_json w) = Some i"
    and "\<not> baselineReady (sites_json w ! i)"
  shows "scan env ident w =
           (Inl (case loadSites_fault env of
                   None \<Rightarrow> Error ''Baseline not ready''
                 | Some e \<Rightarrow> e),
            w\<lparr>io_log := io_log w @ [LoadSites]\<rparr>)"
  using assms by (simp add: scan_def loadSites_def logged_def split: option.splits)

theorem scan_without_baseline_witness:
  "findIndex (\<lambda>s. id_site s = ''site_1a2b3c4d'')
        (sites_json (exampleStore (exampleSite\<lparr>baselineReady := False\<rparr>) [])) = Some 0
   \<and> \<not> baselineReady (sites_json (exampleStore (exampleSite\<lparr>baselineReady := False\<rparr>) []) ! 0)
   \<and> scan (exampleEnv [''https://site.com/a'']) ''site_1a2b3c4d''
        (exampleStore (exampleSite\<lparr>baselineReady := False\<rparr>) [])
      = (Inl (Error ''Baseline not ready''),
         (exampleStore (exampleSite\<lparr>baselineReady := False\<rparr>) [])\<lparr>io_log := [LoadSites]\<rparr>)
   \<and> scan ((exampleEnv [''https://site.com/a''])
               \<lparr>loadSites_fault := Some (Error ''Unexpected end of JSON input'')\<rparr>)
        ''site_1a2b3c4d'' (exampleStore (exampleSite\<lparr>baselineReady := False\<rparr>) [])
      = (Inl (Error ''Unexpected end of JSON input''),
         (exampleStore (exampleSite\<lparr>baselineReady := False\<rparr>) [])\<lparr>io_log := [LoadSites]\<rparr>)"
proof -
  have 1: "findIndex (\<lambda>s. id_site s = ''site_1a2b3c4d'')
        (sites_json (exampleStore (exampleSite\<lparr>baselineReady := False\<rparr>) [])) = Some 0"
    by (simp add: exampleStore_def exampleSite_def)
  have 2: "\<not> baselineReady (sites_json (exampleStore (exampleSite\<lparr>baselineReady := False\<rparr>) []) ! 0)"
    by (simp add: exampleStore_def exampleSite_def)
  have 3: "loadSites_fault (exampleEnv [''https://site.com/a'']) = None"
    by (simp add: exampleEnv_def)
  from scan_without_baseline [OF 1 2, of "exampleEnv [''https://site.com/a'']"]
    scan_without_baseline [OF 1 2, of "(exampleEnv [''https://site.com/a''])
               \<lparr>loadSites_fault := Some (Error ''Unexpected end of JSON input'')\<rparr>"]
    1 2 3
  show ?thesis
    by (simp add: exampleStore_def)
qed

text \<open>
  Counterexample to C5 as stated: the scan of a site without baseline has read the site
  list by the time it throws, so it does not fail before any I/O.
\<close>

theorem scan_without_baseline_reads_site_list:
  "fst (scan (exampleEnv [''https://site.com/a'']) ''site_1a2b3c4d''
          (exampleStore (exampleSite\<lparr>baselineReady := False\<rparr>) []))
     = Inl (Error ''Baseline not ready'')
   \<and> io_log (exampleStore (exampleSite\<lparr>baselineReady := False\<rparr>) []) = []
   \<and> io_log (snd (scan (exampleEnv [''https://site.com/a'']) ''site_1a2b3c4d''
          (exampleStore (exampleSite\<lparr>baselineReady := False\<rparr>) [])))
     = [LoadSites]"
  by (simp add: scan_def loadSites_def logged_def exampleEnv_def exampleSite_def
      exampleStore_def)

section \<open>Running baseline twice\<close>

lemma baselineLoop_seen:
  "\<forall>u \<in> set urls. \<not> notSeen m (H (normalizeUrl u)) \<Longrightarrow>
   \<exists>s'. baselineLoop H urls (m, c, s) = (m, c, s')"
  by (induction urls arbitrary: s) (auto simp: Let_def)

lemma baselineLoop_spec:
  assumes "\<forall>u \<in> set urls. normalizeUrl u \<noteq> []"
  shows "\<exists>m' s'. baselineLoop H urls (m, c, s)
            = (m', c + card {h \<in> H ` normalizeUrl ` set urls. notSeen m h}, s')
         \<and> (\<forall>h. notSeen m' h \<longleftrightarrow> notSeen m h \<and> h \<notin> H ` normalizeUrl ` set urls)
         \<and> fst ` set m' = fst ` set m \<union> {h \<in> H ` normalizeUrl ` set urls. notSeen m h}
         \<and> (distinct (map fst m) \<longrightarrow> distinct (map fst m'))"
  using assms
proof (induction urls arbitrary: m c s)
  case Nil
  then show ?case by simp
next
  case (Cons rawUrl rest)
  define u where "u = normalizeUrl rawUrl"
  define K where "K = H ` normalizeUrl ` set rest"
  define s1 where "s1 = (if length s < 5 then s @ [u] else s)"
  from Cons.prems have ne: "u \<noteq> []" and rest: "\<forall>u \<in> set rest. normalizeUrl u \<noteq> []"
    by (auto simp: u_def)
  have fin: "finite K" by (simp add: K_def)
  have K2: "H ` normalizeUrl ` set (rawUrl # rest) = insert (H u) K"
    by (simp add: K_def u_def)
  show ?case
  proof (cases "notSeen m (H u)")
    case True
    define m1 where "m1 = AList.update (H u) u m"
    have n1: "notSeen m1 h \<longleftrightarrow> notSeen m h \<and> h \<noteq> H u" for h
      using ne by (simp add: m1_def notSeen_update)
    have step: "baselineLoop H (rawUrl # rest) (m, c, s) = baselineLoop H rest (m1, c + 1, s1)"
      using True by (simp add: Let_def u_def m1_def s1_def)
    have "\<exists>m' s'. baselineLoop H rest (m1, c + 1, s1)
              = (m', c + 1 + card {h \<in> K. notSeen m1 h}, s')
         \<and> (\<forall>h. notSeen m' h \<longleftrightarrow> notSeen m1 h \<and> h \<notin> K)
         \<and> fst ` set m' = fst ` set m1 \<union> {h \<in> K. notSeen m1 h}
         \<and> (distinct (map fst m1) \<longrightarrow> distinct (map fst m'))"
      unfolding K_def by (rule Cons.IH [OF rest])
    then obtain m' s' where
      run: "baselineLoop H rest (m1, c + 1, s1) = (m', c + 1 + card {h \<in> K. notSeen m1 h}, s')"
      and ns: "\<forall>h. notSeen m' h \<longleftrightarrow> notSeen m1 h \<and> h \<notin> K"
      and keys: "fst ` set m' = fst ` set m1 \<union> {h \<in> K. notSeen m1 h}"
      and dist: "distinct (map fst m1) \<longrightarrow> distinct (map fst m')"
      by (elim exE conjE) (rule that)
    have set1: "{h \<in> K. notSeen m1 h} = {h \<in> K. notSeen m h \<and> h \<noteq> H u}"
      using n1 by simp
    have set2: "{h \<in> insert (H u) K. notSeen m h} = insert (H u) {h \<in> K. notSeen m1 h}"
      unfolding set1 using True by (rule new_keys_insert(1))
    have "H u \<notin> {h \<in> K. notSeen m1 h}" by (simp add: n1)
    then have c2: "card {h \<in> insert (H u) K. notSeen m h} = 1 + card {h \<in> K. notSeen m1 h}"
      unfolding set2 using fin by simp
    have A: "baselineLoop H (rawUrl # rest) (m, c, s)
            = (m', c + card {h \<in> H ` normalizeUrl ` set (rawUrl # rest). notSeen m h}, s')"
      unfolding step run K2 c2 by simp
    have B: "\<forall>h. notSeen m' h \<longleftrightarrow> notSeen m h \<and> h \<notin> H ` normalizeUrl ` set (rawUrl # rest)"
      unfolding K2 using ns n1 by simp
    have C: "fst ` set m' = fst ` set m
               \<union> {h \<in> H ` normalizeUrl ` set (rawUrl # rest). notSeen m h}"
      unfolding keys K2 set2 by (simp add: m1_def keys_update)
    have D: "distinct (map fst m) \<longrightarrow> distinct (map fst m')"
      using dist by (simp add: m1_def distinct_update)
    from A B C D show ?thesis by (intro exI[of _ m'] exI[of _ s'] conjI)
  next
    case False
    have step: "baselineLoop H (rawUrl # rest) (m, c, s) = baselineLoop H rest (m, c, s1)"
      using False by (simp add: Let_def u_def s1_def)
    have "\<exists>m' s'. baselineLoop H rest (m, c, s1)
              = (m', c + card {h \<in> K. notSeen m h}, s')
         \<and> (\<forall>h. notSeen m' h \<longleftrightarrow> notSeen m h \<and> h \<notin> K)
         \<and> fst ` set m' = fst ` set m \<union> {h \<in> K. notSeen m h}
         \<and> (distinct (map fst m) \<longrightarrow> distinct (map fst m'))"
      unfolding K_def by (rule Cons.IH [OF rest])
    then obtain m' s' where
      run: "baselineLoop H rest (m, c, s1) = (m', c + card {h \<in> K. notSeen m h}, s')"
      and ns: "\<forall>h. notSeen m' h \<longleftrightarrow> notSeen m h \<and> h \<notin> K"
      and keys: "fst ` set m' = fst ` set m \<union> {h \<in> K. notSeen m h}"
      and dist: "distinct (map fst m) \<longrightarrow> distinct (map fst m')"
      by (elim exE conjE) (rule that)
    have set2: "{h \<in> insert (H u) K. notSeen m h} = {h \<in> K. notSeen m h}"
      using False by (rule new_keys_insert(2))
    have A: "baselineLoop H (rawUrl # rest) (m, c, s)
            = (m', c + card {h \<in> H ` normalizeUrl ` set (rawUrl # rest). notSeen m h}, s')"
      unfolding step run K2 set2 by simp
    have B: "\<forall>h. notSeen m' h \<longleftrightarrow> notSeen m h \<and> h \<notin> H ` normalizeUrl ` set (rawUrl # rest)"
      unfolding K2 using ns False by auto
    have C: "fst ` set m' = fst ` set m
               \<union> {h \<in> H ` normalizeUrl ` set (rawUrl # rest). notSeen m h}"
      unfolding keys K2 set2 by simp
    from A B C dist show ?thesis by (intro exI[of _ m'] exI[of _ s'] conjI)
  qed
qed

lemma baseline_success:
  assumes nf: "noFaults env"
    and fi: "findIndex (\<lambda>s. id_site s = ident) (sites_json w) = Some i"
    and fr: "fetchResult env (sitemapUrl (sites_json w ! i)) = Inr urls"
    and loop: "baselineLoop (sha1_hex env) urls
        ((case map_of (seen_urls_json w) ident of None \<Rightarrow> [] | Some m \<Rightarrow> m), 0, [])
        = (m', c', s')"
  shows "\<exists>site' w'. baseline env ident w = (Inr site', w')
      \<and> seenCount site' = length m'
      \<and> (\<exists>sm. lastResult site' = Some sm \<and> newOrInsertedCount sm = c')
      \<and> sites_json w' = (sites_json w)[i := site']
      \<and> id_site site' = ident
      \<and> sitemapUrl site' = sitemapUrl (sites_json w ! i)
      \<and> map_of (seen_urls_json w') ident = Some m'"
proof -
  from findIndex_Some [OF fi] have idi: "id_site (sites_json w ! i) = ident" by simp
  from nf have flt: "loadSites_fault env = None" "loadSeen_fault env = None"
    "saveSeen_fault env = None" "saveSites_fault env = None"
    by (simp_all add: noFaults_def)
  note defs = baseline_def baselineTry_def loadSites_def saveSites_def loadSeen_def
    saveSeen_def atomicWrite_def logged_def fetchSitemapUrls_def Let_def objectKeys_def
  show ?thesis
  proof (cases "map_of (seen_urls_json w) ident")
    case None
    with loop have "baselineLoop (sha1_hex env) urls ([], 0, []) = (m', c', s')" by simp
    with None flt fi fr show ?thesis
      by (simp add: defs idi update_conv')
  next
    case (Some m0)
    with loop have "baselineLoop (sha1_hex env) urls (m0, 0, []) = (m', c', s')" by simp
    with Some flt fi fr show ?thesis
      by (simp add: defs idi update_conv')
  qed
qed

lemma example_normalized:
  "normalizeUrl ''https://site.com/a'' = ''https://site.com/a''"
  "normalizeUrl ''https://site.com/a/'' = ''https://site.com/a''"
  "normalizeUrl ''https://site.com/b'' = ''https://site.com/b''"
  by (simp_all add: string_defs)

text \<open>
  Claim C6, as amended. Let the sitemap list \<open>urls\<close>, all with a non-empty normal form,
  let the digest be injective on these normal forms, and let no storage call fail. Starting
  from an empty seen-set of the site, the first baseline counts as many insertions as there
  are distinct normalised URLs, and that is the site's \<open>seenCount\<close>; the second baseline on
  the same sitemap counts none and leaves \<open>seenCount\<close> the same.
\<close>

theorem baseline_twice:
  assumes nf1: "noFaults env1" and nf2: "noFaults env2"
    and same_hash: "sha1_hex env2 = sha1_hex env1"
    and fi: "findIndex (\<lambda>s. id_site s = ident) (sites_json w) = Some i"
    and fr1: "fetchResult env1 (sitemapUrl (sites_json w ! i)) = Inr urls"
    and fr2: "fetchResult env2 (sitemapUrl (sites_json w ! i)) = Inr urls"
    and empty: "map_of (seen_urls_json w) ident = None \<or> map_of (seen_urls_json w) ident = Some []"
    and nonempty: "\<forall>u \<in> set urls. normalizeUrl u \<noteq> []"
    and inj: "inj_on (sha1_hex env1) (normalizeUrl ` set urls)"
  shows "\<exists>site1 w1 s1 site2 w2 s2.
      baseline env1 ident w = (Inr site1, w1)
      \<and> lastResult site1 = Some s1
      \<and> newOrInsertedCount s1 = card (normalizeUrl ` set urls)
      \<and> seenCount site1 = card (normalizeUrl ` set urls)
      \<and> baseline env2 ident w1 = (Inr site2, w2)
      \<and> lastResult site2 = Some s2
      \<and> newOrInsertedCount s2 = 0
      \<and> seenCount site2 = seenCount site1"
proof -
  define H where "H = sha1_hex env1"
  define K where "K = H ` normalizeUrl ` set urls"
  from empty have m0: "(case map_of (seen_urls_json w) ident of None \<Rightarrow> [] | Some m \<Rightarrow> m) = []"
    by auto
  have "\<exists>m' s'. baselineLoop H urls ([], 0, [])
            = (m', 0 + card {h \<in> K. notSeen ([]::seen_map) h}, s')
         \<and> (\<forall>h. notSeen m' h \<longleftrightarrow> notSeen ([]::seen_map) h \<and> h \<notin> K)
         \<and> fst ` set m' = fst ` set ([]::seen_map) \<union> {h \<in> K. notSeen ([]::seen_map) h}
         \<and> (distinct (map fst ([]::seen_map)) \<longrightarrow> distinct (map fst m'))"
    unfolding K_def by (rule baselineLoop_spec [OF nonempty])
  then obtain m' s' where
    run: "baselineLoop H urls ([], 0, []) = (m', 0 + card {h \<in> K. notSeen ([]::seen_map) h}, s')"
    and ns: "\<forall>h. notSeen m' h \<longleftrightarrow> notSeen ([]::seen_map) h \<and> h \<notin> K"
    and keys: "fst ` set m' = fst ` set ([]::seen_map) \<union> {h \<in> K. notSeen ([]::seen_map) h}"
    and dist: "distinct (map fst ([]::seen_map)) \<longrightarrow> distinct (map fst m')"
    by (elim exE conjE) (rule that)
  have all: "{h \<in> K. notSeen ([]::seen_map) h} = K" by (simp add: notSeen_def)
  have cardK: "card K = card (normalizeUrl ` set urls)"
    unfolding K_def H_def using inj by (rule card_image)
  from dist have "distinct (map fst m')" by simp
  from distinct_card [OF this] have "length m' = card (fst ` set m')" by simp
  with keys all have len: "length m' = card K" by simp
  have loop1: "baselineLoop (sha1_hex env1) urls
        ((case map_of (seen_urls_json w) ident of None \<Rightarrow> [] | Some m \<Rightarrow> m), 0, [])
        = (m', card K, s')"
    using run unfolding m0 all H_def by simp
  from baseline_success [OF nf1 fi fr1 loop1]
  obtain site1 w1 s1 where b1: "baseline env1 ident w = (Inr site1, w1)"
    and sc1: "seenCount site1 = length m'"
    and lr1: "lastResult site1 = Some s1" and cnt1: "newOrInsertedCount s1 = card K"
    and sites1: "sites_json w1 = (sites_json w)[i := site1]"
    and id1: "id_site site1 = ident"
    and su1: "sitemapUrl site1 = sitemapUrl (sites_json w ! i)"
    and seen1: "map_of (seen_urls_json w1) ident = Some m'"
    by (elim exE conjE) (rule that)
  from findIndex_Some [OF fi] have ilen: "i < length (sites_json w)" by simp
  have fi2: "findIndex (\<lambda>s. id_site s = ident) (sites_json w1) = Some i"
    unfolding sites1 using fi id1 by (rule findIndex_update)
  have fr2': "fetchResult env2 (sitemapUrl (sites_json w1 ! i)) = Inr urls"
    unfolding sites1 using ilen fr2 su1 by simp
  have "\<forall>u \<in> set urls. \<not> notSeen m' (H (normalizeUrl u))"
    using ns by (simp add: K_def)
  from baselineLoop_seen [OF this, of 0 "[]"]
  obtain s'' where "baselineLoop H urls (m', 0, []) = (m', 0, s'')" by blast
  then have loop2: "baselineLoop (sha1_hex env2) urls
        ((case map_of (seen_urls_json w1) ident of None \<Rightarrow> [] | Some m \<Rightarrow> m), 0, [])
        = (m', 0, s'')"
    unfolding seen1 same_hash H_def by simp
  from baseline_success [OF nf2 fi2 fr2' loop2]
  obtain site2 w2 s2 where b2: "baseline env2 ident w1 = (Inr site2, w2)"
    and sc2: "seenCount site2 = length m'"
    and lr2: "lastResult site2 = Some s2" and cnt2: "newOrInsertedCount s2 = 0"
    by (elim exE conjE) (rule that)
  from b1 lr1 cnt1 sc1 b2 lr2 cnt2 sc2 len cardK show ?thesis
    by (intro exI[of _ site1] exI[of _ w1] exI[of _ s1] exI[of _ site2] exI[of _ w2]
        exI[of _ s2]) simp
qed

theorem baseline_twice_witness:
  "noFaults (exampleEnv [''https://site.com/a'', ''https://site.com/a/'', ''https://site.com/b''])
   \<and> normalizeUrl ''https://site.com/a'' \<noteq> [] \<and> normalizeUrl ''https://site.com/a/'' \<noteq> []
   \<and> normalizeUrl ''https://site.com/b'' \<noteq> []
   \<and> (\<exists>site1 w1 s1 site2 w2 s2.
      baseline (exampleEnv [''https://site.com/a'', ''https://site.com/a/'', ''https://site.com/b''])
        ''site_1a2b3c4d'' (exampleStore (exampleSite\<lparr>baselineReady := False\<rparr>) [])
        = (Inr site1, w1)
      \<and> lastResult site1 = Some s1 \<and> newOrInsertedCount s1 = 2 \<and> seenCount site1 = 2
      \<and> baseline (exampleEnv [''https://site.com/a'', ''https://site.com/a/'', ''https://site.com/b''])
          ''site_1a2b3c4d'' w1 = (Inr site2, w2)
      \<and> lastResult site2 = Some s2 \<and> newOrInsertedCount s2 = 0
      \<and> seenCount site2 = seenCount site1)"
proof -
  define urls where "urls = [''https://site.com/a'', ''https://site.com/a/'', ''https://site.com/b'']"
  define E where "E = exampleEnv urls"
  define W where "W = exampleStore (exampleSite\<lparr>baselineReady := False\<rparr>) []"
  have nf: "noFaults E" by (simp add: E_def noFaults_def exampleEnv_def)
  have fi: "findIndex (\<lambda>s. id_site s = ''site_1a2b3c4d'') (sites_json W) = Some 0"
    by (simp add: W_def exampleStore_def exampleSite_def)
  have fr: "fetchResult E (sitemapUrl (sites_json W ! 0)) = Inr urls"
    by (simp add: E_def fetchResult_def axios_get_def defaultValidateStatus_def
        exampleEnv_def urls_def)
  have em: "map_of (seen_urls_json W) ''site_1a2b3c4d'' = None
            \<or> map_of (seen_urls_json W) ''site_1a2b3c4d'' = Some []"
    by (simp add: W_def exampleStore_def exampleSite_def)
  have ne: "\<forall>u \<in> set urls. normalizeUrl u \<noteq> []"
    by (simp add: urls_def example_normalized)
  have inj: "inj_on (sha1_hex E) (normalizeUrl ` set urls)"
    by (simp add: E_def exampleEnv_def inj_on_def)
  have card: "card (normalizeUrl ` set urls) = 2"
    by (simp add: urls_def example_normalized)
  from baseline_twice [OF nf nf refl fi fr fr em ne inj] nf
  show ?thesis
    unfolding card unfolding E_def W_def urls_def by (simp add: example_normalized)
qed

text \<open>
  Counterexample to C6 as stated: the sitemap lists two URLs that differ by a trailing
  slash. They have the same normal form, so the first baseline counts one insertion for a
  set of two URLs.
\<close>

theorem baseline_counts_normalized_urls:
  "map_sum id (map_option newOrInsertedCount \<circ> lastResult)
     (fst (baseline (exampleEnv [''https://site.com/a'', ''https://site.com/a/''])
        ''site_1a2b3c4d'' (exampleStore (exampleSite\<lparr>baselineReady := False\<rparr>) [])))
     = Inr (Some 1)
   \<and> card {''https://site.com/a'', ''https://site.com/a/''} = 2"
  by (simp add: baseline_def baselineTry_def storage_defs example_defs example_normalized
      notSeen_def Let_def)

section \<open>Repeated scans\<close>

lemma map_of_update_seen:
  "map_of (AList.update k v sd) sid = (if sid = k then Some v else map_of sd sid)"
  by (simp add: update_conv')

lemma scanLoop_keys: "fst ` set m \<subseteq> fst ` set (fst (scanLoop H urls (m, n)))"
proof (induction urls arbitrary: m n)
  case Nil
  then show ?case by simp
next
  case (Cons rawUrl rest)
  show ?case
  proof (cases "notSeen m (H (normalizeUrl rawUrl))")
    case True
    with Cons [of "AList.update (H (normalizeUrl rawUrl)) (normalizeUrl rawUrl) m"
        "n @ [normalizeUrl rawUrl]"]
    show ?thesis by (auto simp: Let_def keys_update)
  next
    case False
    with Cons [of m n] show ?thesis by (simp add: Let_def)
  qed
qed

lemma baselineLoop_keys: "fst ` set m \<subseteq> fst ` set (fst (baselineLoop H urls (m, c, s)))"
proof (induction urls arbitrary: m c s)
  case Nil
  then show ?case by simp
next
  case (Cons rawUrl rest)
  show ?case
  proof (cases "notSeen m (H (normalizeUrl rawUrl))")
    case True
    with Cons [of "AList.update (H (normalizeUrl rawUrl)) (normalizeUrl rawUrl) m"]
    show ?thesis by (auto simp: Let_def keys_update)
  next
    case False
    with Cons [of m] show ?thesis by (simp add: Let_def)
  qed
qed

lemma mergeSeen_keys: "fst ` set m \<subseteq> fst ` set (mergeSeen H items m)"
  unfolding mergeSeen_def
proof (induction items arbitrary: m)
  case Nil
  then show ?case by simp
next
  case (Cons item items)
  from Cons [of "AList.update (H (url item)) (url item) m"]
  show ?case by (auto simp: keys_update)
qed

text \<open>
  What a successful scan has done.
\<close>

lemma scan_success:
  assumes "scan env ident w = (Inr (site, items), w')"
  shows "\<exists>i urls. findIndex (\<lambda>s. id_site s = ident) (sites_json w) = Some i
      \<and> baselineReady (sites_json w ! i)
      \<and> fetchResult env (sitemapUrl (sites_json w ! i)) = Inr urls
      \<and> items = buildItems env (sites_json w ! i) 0
                  (snd (scanLoop (sha1_hex env) urls (siteSeenMap w ident, [])))
      \<and> sites_json w' = (sites_json w)[i := site]
      \<and> id_site site = ident \<and> baselineReady site
      \<and> sitemapUrl site = sitemapUrl (sites_json w ! i)
      \<and> seen_urls_json w' =
           (if items = [] then seen_urls_json w
            else AList.update ident
                   (mergeSeen (sha1_hex env) items
                      (fst (scanLoop (sha1_hex env) urls (siteSeenMap w ident, []))))
                   (seen_urls_json w))"
proof -
  from assms obtain sites i w1 where ld: "loadSites env w = (Inr sites, w1)"
    and fi: "findIndex (\<lambda>s. id_site s = ident) sites = Some i"
    and br: "baselineReady (sites ! i)"
    and tr: "scanTry env sites i w1 = (Inr (site, items), w')"
    by (auto simp: scan_def catchBlock_def saveSites_def atomicWrite_def Let_def
        split: option.splits if_splits prod.splits sum.splits)
  from ld have sites: "sites = sites_json w" and w1: "w1 = logged LoadSites w"
    by (auto simp: loadSites_def split: option.splits)
  from findIndex_Some [OF fi] have idi: "id_site (sites_json w ! i) = ident"
    by (simp add: sites)
  from tr fi br idi show ?thesis
    unfolding sites w1
    by (auto simp: scanTry_def loadSites_def saveSites_def loadSeen_def saveSeen_def
        loadNewItems_def appendNewItems_def atomicWrite_def logged_def fetchSitemapUrls_def
        Let_def siteSeenMap_def buildItems_Nil
        split: option.splits if_splits prod.splits sum.splits)
qed

lemma catchBlock_seen:
  "seen_urls_json (snd (catchBlock env sites i site e k w)) = seen_urls_json w"
  by (simp add: catchBlock_def saveSites_def atomicWrite_def logged_def Let_def
      split: option.splits)

lemma appendNewItems_seen:
  "seen_urls_json (snd (appendNewItems env items w)) = seen_urls_json w"
  by (simp add: appendNewItems_def loadNewItems_def atomicWrite_def logged_def Let_def
      split: option.splits)

lemma scanTry_seen:
  assumes fr: "fetchResult env (sitemapUrl (sites ! i)) = Inr urls"
    and L: "scanLoop (sha1_hex env) urls (siteSeenMap w (id_site (sites ! i)), []) = (m1, newUrls)"
  shows "seen_urls_json (snd (scanTry env sites i w)) = seen_urls_json w
    \<or> seen_urls_json (snd (scanTry env sites i w)) =
         AList.update (id_site (sites ! i))
           (mergeSeen (sha1_hex env) (buildItems env (sites ! i) 0 newUrls) m1)
           (seen_urls_json w)"
proof (cases "loadSeen_fault env")
  case (Some e)
  then show ?thesis
    using fr by (simp add: scanTry_def fetchSitemapUrls_def loadSeen_def logged_def Let_def)
next
  case None
  note ls = None
  show ?thesis
  proof (cases "newUrls = []")
    case True
    with fr L ls show ?thesis
      by (simp add: scanTry_def fetchSitemapUrls_def loadSeen_def saveSites_def
          atomicWrite_def logged_def Let_def siteSeenMap_def split: option.splits)
  next
    case False
    then have ne: "buildItems env (sites ! i) 0 newUrls \<noteq> []"
      by (simp add: buildItems_Nil)
    show ?thesis
    proof (cases "saveSeen_fault env")
      case (Some e)
      with fr L ls ne show ?thesis
        by (simp add: scanTry_def fetchSitemapUrls_def loadSeen_def saveSeen_def
            atomicWrite_def logged_def Let_def siteSeenMap_def)
    next
      case None
      define w3 where "w3 = w\<lparr>io_log := io_log w @ [HttpGet (sitemapUrl (sites ! i)), LoadSeen]
            @ map FetchPageTitle newUrls @ [SaveSeen],
          seen_urls_json := AList.update (id_site (sites ! i))
           (mergeSeen (sha1_hex env) (buildItems env (sites ! i) 0 newUrls) m1)
           (seen_urls_json w)\<rparr>"
      have s3: "seen_urls_json (snd (appendNewItems env (buildItems env (sites ! i) 0 newUrls) w3))
          = seen_urls_json w3"
        by (rule appendNewItems_seen)
      obtain r w4 where ap: "appendNewItems env (buildItems env (sites ! i) 0 newUrls) w3 = (r, w4)"
        by (cases "appendNewItems env (buildItems env (sites ! i) 0 newUrls) w3")
      with s3 have s4: "seen_urls_json w4 = seen_urls_json w3" by simp
      from fr L ls ne None ap s4 show ?thesis
        by (simp add: scanTry_def fetchSitemapUrls_def loadSeen_def saveSeen_def saveSites_def
            atomicWrite_def logged_def Let_def siteSeenMap_def w3_def
            split: option.splits sum.splits)
    qed
  qed
qed

lemma scan_seen_shape:
  "seen_urls_json (snd (scan env ident w)) = seen_urls_json w
   \<or> (\<exists>urls items. seen_urls_json (snd (scan env ident w)) =
         AList.update ident
           (mergeSeen (sha1_hex env) items
              (fst (scanLoop (sha1_hex env) urls (siteSeenMap w ident, []))))
           (seen_urls_json w))"
proof (cases "findIndex (\<lambda>s. id_site s = ident) (sites_json w)")
  case None
  then show ?thesis
    by (auto simp: scan_def loadSites_def logged_def split: option.splits)
next
  case (Some i)
  from findIndex_Some [OF Some] have idi: "id_site (sites_json w ! i) = ident" by simp
  define w1 where "w1 = logged LoadSites w"
  have sw1: "seen_urls_json w1 = seen_urls_json w" "siteSeenMap w1 = siteSeenMap w"
    by (simp_all add: w1_def logged_def siteSeenMap_def fun_eq_iff)
  show ?thesis
  proof (cases "fetchResult env (sitemapUrl (sites_json w ! i))")
    case (Inl e)
    with Some have "seen_urls_json (snd (scan env ident w)) = seen_urls_json w"
      by (auto simp: scan_def scanTry_def catchBlock_def loadSites_def saveSites_def
          atomicWrite_def logged_def fetchSitemapUrls_def Let_def split: option.splits)
    then show ?thesis by simp
  next
    case (Inr urls)
    obtain m1 newUrls where L:
      "scanLoop (sha1_hex env) urls (siteSeenMap w (id_site (sites_json w ! i)), []) = (m1, newUrls)"
      by (cases "scanLoop (sha1_hex env) urls (siteSeenMap w (id_site (sites_json w ! i)), [])")
    from scanTry_seen [of env "sites_json w" i urls w1 m1 newUrls] Inr L
    have T: "seen_urls_json (snd (scanTry env (sites_json w) i w1)) = seen_urls_json w
      \<or> seen_urls_json (snd (scanTry env (sites_json w) i w1)) =
         AList.update ident
           (mergeSeen (sha1_hex env) (buildItems env (sites_json w ! i) 0 newUrls) m1)
           (seen_urls_json w)"
      by (simp add: sw1 idi)
    have S: "seen_urls_json (snd (scan env ident w)) = seen_urls_json w
      \<or> seen_urls_json (snd (scan env ident w))
           = seen_urls_json (snd (scanTry env (sites_json w) i w1))"
      using Some
      by (cases "scanTry env (sites_json w) i w1")
         (auto simp: scan_def loadSites_def w1_def [symmetric] sw1 catchBlock_seen
          split: option.splits sum.splits prod.splits)
    from L idi have "m1 = fst (scanLoop (sha1_hex env) urls (siteSeenMap w ident, []))"
      by simp
    with T S show ?thesis by metis
  qed
qed

text \<open>
  Neither operation removes a key from the seen-set of any site, whatever its outcome.
\<close>

lemma scan_keeps_seen_keys:
  "fst ` set (siteSeenMap w sid) \<subseteq> fst ` set (siteSeenMap (snd (scan env ident w)) sid)"
proof -
  from scan_seen_shape [of env ident w]
  consider "seen_urls_json (snd (scan env ident w)) = seen_urls_json w"
    | urls items where "seen_urls_json (snd (scan env ident w)) =
         AList.update ident
           (mergeSeen (sha1_hex env) items
              (fst (scanLoop (sha1_hex env) urls (siteSeenMap w ident, []))))
           (seen_urls_json w)"
    by blast
  then show ?thesis
  proof cases
    case 1
    then show ?thesis by (simp add: siteSeenMap_def)
  next
    case 2
    show ?thesis
    proof (cases "sid = ident")
      case True
      have "fst ` set (siteSeenMap w ident)
          \<subseteq> fst ` set (fst (scanLoop (sha1_hex env) urls (siteSeenMap w ident, [])))"
        by (rule scanLoop_keys)
      also have "\<dots> \<subseteq> fst ` set (mergeSeen (sha1_hex env) items
              (fst (scanLoop (sha1_hex env) urls (siteSeenMap w ident, []))))"
        by (rule mergeSeen_keys)
      also have "\<dots> = fst ` set (siteSeenMap (snd (scan env ident w)) ident)"
        unfolding siteSeenMap_def [of "snd (scan env ident w)"] 2
        by (simp add: map_of_update_seen)
      finally show ?thesis unfolding True .
    next
      case False
      then have "siteSeenMap (snd (scan env ident w)) sid = siteSeenMap w sid"
        unfolding siteSeenMap_def 2 by (simp add: map_of_update_seen)
      then show ?thesis by simp
    qed
  qed
qed

lemma baselineTry_seen:
  "seen_urls_json (snd (baselineTry env sites i w)) = seen_urls_json w
    \<or> (\<exists>urls. seen_urls_json (snd (baselineTry env sites i w)) =
         AList.update (id_site (sites ! i))
           (fst (baselineLoop (sha1_hex env) urls (siteSeenMap w (id_site (sites ! i)), 0, [])))
           (if map_of (seen_urls_json w) (id_site (sites ! i)) = None
            then AList.update (id_site (sites ! i)) [] (seen_urls_json w)
            else seen_urls_json w))"
proof (cases "fetchResult env (sitemapUrl (sites ! i))")
  case (Inl e)
  then show ?thesis
    by (simp add: baselineTry_def fetchSitemapUrls_def logged_def Let_def)
next
  case (Inr urls)
  show ?thesis
  proof (cases "loadSeen_fault env")
    case (Some e)
    with Inr show ?thesis
      by (simp add: baselineTry_def fetchSitemapUrls_def loadSeen_def logged_def Let_def)
  next
    case None
    have m0: "(case map_of (if map_of (seen_urls_json w) (id_site (sites ! i)) = None
                          then AList.update (id_site (sites ! i)) [] (seen_urls_json w)
                          else seen_urls_json w) (id_site (sites ! i)) of
                 None \<Rightarrow> [] | Some m \<Rightarrow> m)
          = siteSeenMap w (id_site (sites ! i))"
      by (auto simp: siteSeenMap_def update_conv' split: option.splits)
    obtain m1 c1 s1 where L: "baselineLoop (sha1_hex env) urls
        (siteSeenMap w (id_site (sites ! i)), 0, []) = (m1, c1, s1)"
      by (cases "baselineLoop (sha1_hex env) urls (siteSeenMap w (id_site (sites ! i)), 0, [])")
    have "seen_urls_json (snd (baselineTry env sites i w)) = seen_urls_json w
      \<or> seen_urls_json (snd (baselineTry env sites i w)) =
         AList.update (id_site (sites ! i)) m1
           (if map_of (seen_urls_json w) (id_site (sites ! i)) = None
            then AList.update (id_site (sites ! i)) [] (seen_urls_json w)
            else seen_urls_json w)"
      using Inr None L
      by (simp add: baselineTry_def fetchSitemapUrls_def loadSeen_def saveSeen_def
          saveSites_def atomicWrite_def logged_def Let_def m0
          split: option.splits)
    with L show ?thesis by (metis fst_conv)
  qed
qed

lemma baseline_keeps_seen_keys:
  "fst ` set (siteSeenMap w sid) \<subseteq> fst ` set (siteSeenMap (snd (baseline env ident w)) sid)"
proof (cases "findIndex (\<lambda>s. id_site s = ident) (sites_json w)")
  case None
  then have "seen_urls_json (snd (baseline env ident w)) = seen_urls_json w"
    by (auto simp: baseline_def loadSites_def logged_def split: option.splits)
  then show ?thesis by (simp add: siteSeenMap_def)
next
  case (Some i)
  from findIndex_Some [OF Some] have idi: "id_site (sites_json w ! i) = ident" by simp
  define w1 where "w1 = logged LoadSites w"
  have sw1: "seen_urls_json w1 = seen_urls_json w" "siteSeenMap w1 = siteSeenMap w"
    by (simp_all add: w1_def logged_def siteSeenMap_def fun_eq_iff)
  have S: "seen_urls_json (snd (baseline env ident w)) = seen_urls_json w
      \<or> seen_urls_json (snd (baseline env ident w))
           = seen_urls_json (snd (baselineTry env (sites_json w) i w1))"
    using Some
    by (cases "baselineTry env (sites_json w) i w1")
       (auto simp: baseline_def loadSites_def w1_def [symmetric] sw1 catchBlock_seen
        split: option.splits sum.splits prod.splits)
  have T: "seen_urls_json (snd (baselineTry env (sites_json w) i w1)) = seen_urls_json w
    \<or> (\<exists>urls. seen_urls_json (snd (baselineTry env (sites_json w) i w1)) =
         AList.update ident
           (fst (baselineLoop (sha1_hex env) urls (siteSeenMap w ident, 0, [])))
           (if map_of (seen_urls_json w) ident = None
            then AList.update ident [] (seen_urls_json w)
            else seen_urls_json w))"
    using baselineTry_seen [of env "sites_json w" i w1] unfolding sw1 idi .
  from S T consider "seen_urls_json (snd (baseline env ident w)) = seen_urls_json w"
    | urls where "seen_urls_json (snd (baseline env ident w)) =
         AList.update ident
           (fst (baselineLoop (sha1_hex env) urls (siteSeenMap w ident, 0, [])))
           (if map_of (seen_urls_json w) ident = None
            then AList.update ident [] (seen_urls_json w)
            else seen_urls_json w)"
    by metis
  then show ?thesis
  proof cases
    case 1
    then show ?thesis by (simp add: siteSeenMap_def)
  next
    case 2
    show ?thesis
    proof (cases "sid = ident")
      case True
      have "fst ` set (siteSeenMap w ident)
          \<subseteq> fst ` set (fst (baselineLoop (sha1_hex env) urls (siteSeenMap w ident, 0, [])))"
        by (rule baselineLoop_keys)
      also have "\<dots> = fst ` set (siteSeenMap (snd (baseline env ident w)) ident)"
        unfolding siteSeenMap_def [of "snd (baseline env ident w)"] 2
        by (simp add: map_of_update_seen)
      finally show ?thesis unfolding True .
    next
      case False
      then have "siteSeenMap (snd (baseline env ident w)) sid = siteSeenMap w sid"
        unfolding siteSeenMap_def 2 by (simp add: map_of_update_seen)
      then show ?thesis by simp
    qed
  qed
qed

lemma scanLoop_seen:
  "\<forall>u \<in> set urls. \<not> notSeen m (H (normalizeUrl u)) \<Longrightarrow> scanLoop H urls (m, acc) = (m, acc)"
  by (induction urls) (auto simp: Let_def)

lemma scanLoop_spec:
  assumes "\<forall>u \<in> set urls. normalizeUrl u \<noteq> []"
  shows "(\<forall>h. notSeen (fst (scanLoop H urls (m, acc))) h
              \<longleftrightarrow> notSeen m h \<and> h \<notin> H ` normalizeUrl ` set urls)
       \<and> set (snd (scanLoop H urls (m, acc))) \<subseteq> set acc \<union> normalizeUrl ` set urls"
  using assms
proof (induction urls arbitrary: m acc)
  case Nil
  then show ?case by simp
next
  case (Cons rawUrl rest)
  define u where "u = normalizeUrl rawUrl"
  from Cons.prems have ne: "u \<noteq> []" and rest: "\<forall>u \<in> set rest. normalizeUrl u \<noteq> []"
    by (auto simp: u_def)
  show ?case
  proof (cases "notSeen m (H u)")
    case True
    then have step: "scanLoop H (rawUrl # rest) (m, acc)
        = scanLoop H rest (AList.update (H u) u m, acc @ [u])"
      by (simp add: Let_def u_def)
    from Cons.IH [OF rest, of "AList.update (H u) u m" "acc @ [u]"] ne
    show ?thesis
      unfolding step by (auto simp: notSeen_update u_def)
  next
    case False
    then have step: "scanLoop H (rawUrl # rest) (m, acc) = scanLoop H rest (m, acc)"
      by (simp add: Let_def u_def)
    from Cons.IH [OF rest, of m acc] False
    show ?thesis
      unfolding step by (auto simp: u_def)
  qed
qed

lemma scanLoop_nothing_new:
  "length acc \<le> length (snd (scanLoop H urls (m, acc)))
   \<and> (length (snd (scanLoop H urls (m, acc))) = length acc \<longrightarrow>
        fst (scanLoop H urls (m, acc)) = m)"
proof (induction urls arbitrary: m acc)
  case Nil
  then show ?case by simp
next
  case (Cons rawUrl rest)
  show ?case
  proof (cases "notSeen m (H (normalizeUrl rawUrl))")
    case True
    with Cons [of "acc @ [normalizeUrl rawUrl]"
        "AList.update (H (normalizeUrl rawUrl)) (normalizeUrl rawUrl) m"]
    show ?thesis by (auto simp: Let_def)
  next
    case False
    with Cons [of acc m] show ?thesis by (simp add: Let_def)
  qed
qed

lemma mergeSeen_keeps_seen:
  assumes "\<forall>it \<in> set items. url it \<noteq> []" and "\<not> notSeen m h"
  shows "\<not> notSeen (mergeSeen H items m) h"
  using assms unfolding mergeSeen_def
proof (induction items arbitrary: m)
  case Nil
  then show ?case by simp
next
  case (Cons item items)
  from Cons.prems have "\<not> notSeen (AList.update (H (url item)) (url item) m) h"
    by (simp add: notSeen_update)
  with Cons.IH [of "AList.update (H (url item)) (url item) m"] Cons.prems
  show ?case by simp
qed

text \<open>
  When every URL of the sitemap has a non-empty normal form, a successful scan followed by
  a successful scan of the same sitemap reports nothing the second time.
\<close>

lemma scan_again_reports_nothing:
  assumes s1: "scan env1 ident w = (Inr (site1, items1), w1)"
    and s2: "scan env2 ident w1 = (Inr (site2, items2), w2)"
    and same_sitemap: "fetchResult env2 (sitemapUrl site1) = fetchResult env1 (sitemapUrl site1)"
    and same_hash: "sha1_hex env2 = sha1_hex env1"
    and nonempty: "\<forall>urls. fetchResult env1 (sitemapUrl site1) = Inr urls
                    \<longrightarrow> (\<forall>u \<in> set urls. normalizeUrl u \<noteq> [])"
  shows "items2 = []"
proof -
  let ?H = "sha1_hex env1"
  from scan_success [OF s1] obtain i urls where
    fi: "findIndex (\<lambda>s. id_site s = ident) (sites_json w) = Some i"
    and fr: "fetchResult env1 (sitemapUrl (sites_json w ! i)) = Inr urls"
    and it1: "items1 = buildItems env1 (sites_json w ! i) 0
                  (snd (scanLoop ?H urls (siteSeenMap w ident, [])))"
    and sites1: "sites_json w1 = (sites_json w)[i := site1]"
    and id1: "id_site site1 = ident"
    and su1: "sitemapUrl site1 = sitemapUrl (sites_json w ! i)"
    and seen1: "seen_urls_json w1 =
           (if items1 = [] then seen_urls_json w
            else AList.update ident
                   (mergeSeen ?H items1 (fst (scanLoop ?H urls (siteSeenMap w ident, []))))
                   (seen_urls_json w))"
    by (elim exE conjE) (rule that)
  from findIndex_Some [OF fi] have ilen: "i < length (sites_json w)" by simp
  have fi1: "findIndex (\<lambda>s. id_site s = ident) (sites_json w1) = Some i"
    unfolding sites1 using fi id1 by (rule findIndex_update)
  have nth1: "sites_json w1 ! i = site1"
    unfolding sites1 using ilen by simp
  from scan_success [OF s2] obtain i2 urls2 where
    fi2: "findIndex (\<lambda>s. id_site s = ident) (sites_json w1) = Some i2"
    and fr2: "fetchResult env2 (sitemapUrl (sites_json w1 ! i2)) = Inr urls2"
    and it2: "items2 = buildItems env2 (sites_json w1 ! i2) 0
                  (snd (scanLoop ?H urls2 (siteSeenMap w1 ident, [])))"
    unfolding same_hash by (elim exE conjE) (rule that)
  from fi1 fi2 have i2: "i2 = i" by simp
  from fr2 have "fetchResult env1 (sitemapUrl site1) = Inr urls2"
    unfolding i2 nth1 same_sitemap .
  with fr have u2: "urls2 = urls" unfolding su1 by simp
  from fr nonempty have ne: "\<forall>u \<in> set urls. normalizeUrl u \<noteq> []"
    unfolding su1 by blast
  define m1 where "m1 = fst (scanLoop ?H urls (siteSeenMap w ident, []))"
  define new1 where "new1 = snd (scanLoop ?H urls (siteSeenMap w ident, []))"
  from scanLoop_spec [OF ne, of ?H "siteSeenMap w ident" "[]"]
  have seen_m1: "\<forall>u \<in> set urls. \<not> notSeen m1 (?H (normalizeUrl u))"
    and new_sub: "set new1 \<subseteq> normalizeUrl ` set urls"
    unfolding m1_def new1_def by auto
  have all_seen: "\<forall>u \<in> set urls. \<not> notSeen (siteSeenMap w1 ident) (?H (normalizeUrl u))"
  proof (cases "items1 = []")
    case True
    then have "new1 = []" unfolding it1 new1_def by (simp add: buildItems_Nil)
    with scanLoop_nothing_new [of "[]" ?H urls "siteSeenMap w ident"]
    have "m1 = siteSeenMap w ident" unfolding m1_def new1_def by simp
    moreover from True seen1 have "siteSeenMap w1 ident = siteSeenMap w ident"
      by (simp add: siteSeenMap_def)
    ultimately show ?thesis using seen_m1 by simp
  next
    case False
    with seen1 have sm: "siteSeenMap w1 ident = mergeSeen ?H items1 m1"
      by (simp add: siteSeenMap_def m1_def update_conv')
    have "map url items1 = new1" unfolding it1 new1_def by (rule map_url_buildItems)
    with new_sub ne have "\<forall>it \<in> set items1. url it \<noteq> []"
      by (metis (no_types, lifting) image_iff in_set_conv_nth length_map nth_map nth_mem subsetD)
    with seen_m1 show ?thesis
      unfolding sm using mergeSeen_keeps_seen [of items1 m1 _ ?H] by blast
  qed
  from scanLoop_seen [OF all_seen, of "[]"] show ?thesis
    unfolding it2 u2 by simp
qed

text \<open>
  Claim C7 at a sitemap whose only entry is \<open>/\<close>. Its normal form is the empty string, and
  the test \<open>!siteSeen[hash]\<close> takes a stored empty string for a missing entry: the first
  scan reports the empty URL as new and stores it, and the second scan of the same sitemap
  reports it as new again.
\<close>

theorem scan_reports_empty_url_again:
  "normalizeUrl ''/'' = []
   \<and> map_sum id (map url \<circ> snd)
       (fst (scan (exampleEnv [''/'']) ''site_1a2b3c4d'' (exampleStore exampleSite [])))
     = Inr [[]]
   \<and> map_sum id (map url \<circ> snd)
       (fst (scan (exampleEnv [''/'']) ''site_1a2b3c4d''
          (snd (scan (exampleEnv [''/'']) ''site_1a2b3c4d'' (exampleStore exampleSite [])))))
     = Inr [[]]"
  by (simp add: scan_def scanTry_def storage_defs string_defs example_defs
      notSeen_def Let_def buildItem_def mergeSeen_def)

section \<open>The items built by a scan\<close>

text \<open>
  The items returned by a successful scan are, in order, built from the list of URLs that
  the diff loop found new, one item per entry of that list; each item carries the type
  computed by \<open>classifyUrl\<close> for its URL, and its review status is \<open>pending\<close> exactly when
  that type is \<open>game\<close> and \<open>not_game\<close> for every other type.
\<close>

lemma scan_items_follow_new_urls:
  assumes "scan env ident w = (Inr (site, newItems), w')"
  shows "\<exists>i urls. findIndex (\<lambda>s. id_site s = ident) (sites_json w) = Some i
      \<and> fetchResult env (sitemapUrl (sites_json w ! i)) = Inr urls
      \<and> map url newItems =
          snd (scanLoop (sha1_hex env) urls
                 ((case map_of (seen_urls_json w) (id_site (sites_json w ! i)) of
                     None \<Rightarrow> [] | Some m \<Rightarrow> m), []))
      \<and> (\<forall>item \<in> set newItems.
            urlType item = classifyUrl (url_pathname env) (url item)
            \<and> (reviewStatus item = Pending \<longleftrightarrow> urlType item = Game)
            \<and> (urlType item \<noteq> Game \<longrightarrow> reviewStatus item = Not_game))"
proof -
  from assms obtain sites i w1 where ld: "loadSites env w = (Inr sites, w1)"
    and fi: "findIndex (\<lambda>s. id_site s = ident) sites = Some i"
    and tr: "scanTry env sites i w1 = (Inr (site, newItems), w')"
    by (auto simp: scan_def catchBlock_def saveSites_def atomicWrite_def Let_def
        split: option.splits if_splits prod.splits sum.splits)
  from ld have sites: "sites = sites_json w" and w1: "w1 = logged LoadSites w"
    by (auto simp: loadSites_def split: option.splits)
  from tr obtain urls where fr: "fetchResult env (sitemapUrl (sites_json w ! i)) = Inr urls"
    and items: "newItems = buildItems env (sites_json w ! i) 0
          (snd (scanLoop (sha1_hex env) urls
                 ((case map_of (seen_urls_json w) (id_site (sites_json w ! i)) of
                     None \<Rightarrow> [] | Some m \<Rightarrow> m), [])))"
    unfolding sites w1
    by (auto simp: scanTry_def loadSeen_def logged_def fetchSitemapUrls_def Let_def
        split: option.splits if_splits prod.splits sum.splits)
  have "\<forall>item \<in> set (buildItems env s k us).
            urlType item = classifyUrl (url_pathname env) (url item)
            \<and> (reviewStatus item = Pending \<longleftrightarrow> urlType item = Game)
            \<and> (urlType item \<noteq> Game \<longrightarrow> reviewStatus item = Not_game)" for s k us
    by (induction us arbitrary: k) (auto simp: buildItem_def Let_def)
  with fi fr items show ?thesis
    unfolding sites by (simp add: map_url_buildItems)
qed

text \<open>
  An entry of the seen-set with a non-empty value is kept by the diff loop, and a URL whose
  normal form is not empty is entered with that value when it is found new. So the list of
  new URLs has no URL twice as long as no normal form is empty.
\<close>

lemma scanLoop_new_distinct:
  assumes "\<forall>u \<in> set urls. normalizeUrl u \<noteq> []"
    and "distinct acc"
    and "\<forall>v \<in> set acc. \<not> notSeen m (H v)"
  shows "distinct (snd (scanLoop H urls (m, acc)))"
  using assms
proof (induction urls arbitrary: m acc)
  case Nil
  then show ?case by simp
next
  case (Cons rawUrl rest)
  define u where "u = normalizeUrl rawUrl"
  from Cons.prems(1) have u: "u \<noteq> []" and rest: "\<forall>u \<in> set rest. normalizeUrl u \<noteq> []"
    by (simp_all add: u_def)
  show ?case
  proof (cases "notSeen m (H u)")
    case True
    with Cons.prems(3) have "u \<notin> set acc"
      by blast
    with Cons.prems(2) have d: "distinct (acc @ [u])"
      by simp
    have s: "\<forall>v \<in> set (acc @ [u]). \<not> notSeen (AList.update (H u) u m) (H v)"
      using Cons.prems(3) u by (simp add: notSeen_update)
    have "distinct (snd (scanLoop H rest (AList.update (H u) u m, acc @ [u])))"
      by (rule Cons.IH [OF rest d s])
    with True show ?thesis
      by (simp add: u_def Let_def)
  next
    case False
    have "distinct (snd (scanLoop H rest (m, acc)))"
      by (rule Cons.IH [OF rest Cons.prems(2) Cons.prems(3)])
    with False show ?thesis
      by (simp add: u_def Let_def)
  qed
qed

lemma scan_items_distinct:
  assumes "scan env ident w = (Inr (site, newItems), w')"
    and "\<forall>i urls. findIndex (\<lambda>s. id_site s = ident) (sites_json w) = Some i
          \<and> fetchResult env (sitemapUrl (sites_json w ! i)) = Inr urls
          \<longrightarrow> (\<forall>u \<in> set urls. normalizeUrl u \<noteq> [])"
  shows "distinct (map url newItems)"
proof -
  from scan_items_follow_new_urls [OF assms(1)] obtain i urls where
    fi: "findIndex (\<lambda>s. id_site s = ident) (sites_json w) = Some i"
    and fr: "fetchResult env (sitemapUrl (sites_json w ! i)) = Inr urls"
    and m: "map url newItems =
          snd (scanLoop (sha1_hex env) urls
                 ((case map_of (seen_urls_json w) (id_site (sites_json w ! i)) of
                     None \<Rightarrow> [] | Some m \<Rightarrow> m), []))"
    by (elim exE conjE) (rule that)
  from assms(2) fi fr have "\<forall>u \<in> set urls. normalizeUrl u \<noteq> []"
    by blast
  from scanLoop_new_distinct [OF this, of "[]"] show ?thesis
    unfolding m by simp
qed

text \<open>
  Claim C8 at a sitemap that lists \<open>/\<close> twice. The normal form of \<open>/\<close> is the empty string,
  and the test \<open>!siteSeen[hash]\<close> takes the empty string stored for the first entry for a
  missing entry: the second entry is found new as well, and the scan builds and stores two
  items for the one URL.
\<close>

theorem scan_builds_two_items_for_one_url:
  "normalizeUrl ''/'' = []
   \<and> map_sum id (map url \<circ> snd)
       (fst (scan (exampleEnv [''/'', ''/'']) ''site_1a2b3c4d'' (exampleStore exampleSite [])))
     = Inr [[], []]
   \<and> map_sum id (lastNewFound \<circ> fst)
       (fst (scan (exampleEnv [''/'', ''/'']) ''site_1a2b3c4d'' (exampleStore exampleSite [])))
     = Inr 2
   \<and> map url (new_items_json
       (snd (scan (exampleEnv [''/'', ''/'']) ''site_1a2b3c4d'' (exampleStore exampleSite []))))
     = [[], []]"
  by (simp add: scan_def scanTry_def storage_defs string_defs example_defs
      notSeen_def Let_def buildItem_def mergeSeen_def)

section \<open>A scan that finds nothing new\<close>

lemma ex_scan_seen:
  "\<exists>site w'. scan (exampleEnv [''https://site.com/a/'']) ''site_1a2b3c4d''
        (exampleStore exampleSite [(''sha1:https://site.com/a'', ''https://site.com/a'')])
      = (Inr (site, []), w')"
  by (simp add: scan_def scanTry_def storage_defs string_defs example_defs notSeen_def Let_def)

text \<open>
  Claim C9. A scan that succeeds with no new URL leaves the seen-set and the item store as
  they were; the log shows the calls made: the site list is read, the sitemap fetched, the
  seen-set read and the site list saved, so \<open>saveSeen\<close> and \<open>appendNewItems\<close> are not
  invoked. The saved site has a fresh \<open>lastScanAt\<close>, status \<open>ok\<close>, \<open>lastNewFound = 0\<close> and a
  success summary with no sample URL.
\<close>

theorem scan_nothing_new:
  assumes "scan env ident w = (Inr (site, []), w')"
  shows "seen_urls_json w' = seen_urls_json w \<and> new_items_json w' = new_items_json w
    \<and> (\<exists>i. findIndex (\<lambda>s. id_site s = ident) (sites_json w) = Some i
          \<and> sites_json w' = (sites_json w)[i := site]
          \<and> io_log w' = io_log w @ [LoadSites, HttpGet (sitemapUrl (sites_json w ! i)),
                                      LoadSeen, SaveSites])
    \<and> lastScanAt site = Some (toISOString env 0) \<and> status site = Ok \<and> lastNewFound site = 0
    \<and> (\<exists>s. lastResult site = Some s \<and> outcome s = Success \<and> sampleUrls s = []
            \<and> newOrInsertedCount s = 0)"
proof -
  from assms obtain sites i w1 where ld: "loadSites env w = (Inr sites, w1)"
    and fi: "findIndex (\<lambda>s. id_site s = ident) sites = Some i"
    and tr: "scanTry env sites i w1 = (Inr (site, []), w')"
    by (auto simp: scan_def catchBlock_def saveSites_def atomicWrite_def Let_def
        split: option.splits if_splits prod.splits sum.splits)
  from ld have sites: "sites = sites_json w" and w1: "w1 = logged LoadSites w"
    by (auto simp: loadSites_def split: option.splits)
  from tr fi show ?thesis
    unfolding sites w1
    by (auto simp: scanTry_def storage_defs Let_def buildItems_Nil
        split: option.splits if_splits prod.splits sum.splits)
qed

theorem scan_nothing_new_witness:
  "\<exists>site w'. scan (exampleEnv [''https://site.com/a/'']) ''site_1a2b3c4d''
        (exampleStore exampleSite [(''sha1:https://site.com/a'', ''https://site.com/a'')])
      = (Inr (site, []), w')
    \<and> seen_urls_json w' = [(''site_1a2b3c4d'', [(''sha1:https://site.com/a'', ''https://site.com/a'')])]
    \<and> new_items_json w' = [] \<and> status site = Ok \<and> lastNewFound site = 0"
proof -
  obtain site w' where h: "scan (exampleEnv [''https://site.com/a/'']) ''site_1a2b3c4d''
        (exampleStore exampleSite [(''sha1:https://site.com/a'', ''https://site.com/a'')])
      = (Inr (site, []), w')"
    using ex_scan_seen by blast
  from scan_nothing_new [OF h] h show ?thesis
    by (simp add: example_defs)
qed

section \<open>discoverSitemap always returns\<close>

text \<open>
  Claim C10. \<open>discoverSitemap\<close> never throws: it always returns a result. The status of
  the result is \<open>ok\<close>, \<open>failed\<close> or \<open>unsupported\<close>; its URL is not empty and is the candidate
  URL: the one taken from robots.txt when the loop over its lines found one, the default
  \<open>{scheme}{domain}/sitemap.xml\<close> otherwise, in particular when the request for
  robots.txt fails; and when the request for the sitemap fails as well, the result is
  \<open>failed\<close> with the default URL.
\<close>

theorem discoverSitemap_total:
  "\<exists>r. discoverSitemap env d = Inr r
     \<and> (status_res r = Ok \<or> status_res r = Failed \<or> status_res r = Unsupported)
     \<and> url_res r \<noteq> []
     \<and> url_res r = resolveTarget env d
     \<and> (\<forall>found. robotsStep env (getProtocol d) d (getProtocol d @ d @ ''/robots.txt'')
                   = Inr (Some found) \<longrightarrow> url_res r = found)
     \<and> ((\<forall>found. robotsStep env (getProtocol d) d (getProtocol d @ d @ ''/robots.txt'')
                   \<noteq> Inr (Some found)) \<longrightarrow> url_res r = getProtocol d @ d @ ''/sitemap.xml'')
     \<and> (\<forall>e1 e2. http_request env (getProtocol d @ d @ ''/robots.txt'') = Inl e1
                \<and> http_request env (getProtocol d @ d @ ''/sitemap.xml'') = Inl e2
          \<longrightarrow> url_res r = getProtocol d @ d @ ''/sitemap.xml'' \<and> status_res r = Failed)"
proof -
  have "\<exists>r. discoverSitemap env d = Inr r \<and> url_res r = resolveTarget env d
      \<and> (status_res r = Ok \<or> status_res r = Failed \<or> status_res r = Unsupported)"
    by (simp add: discoverSitemap_def validateStep_def axios_get_def tryCatch_def Let_def
        split: sum.splits)
  then obtain r where r: "discoverSitemap env d = Inr r" and u: "url_res r = resolveTarget env d"
    and s: "status_res r = Ok \<or> status_res r = Failed \<or> status_res r = Unsupported"
    by blast
  have both: "url_res r = getProtocol d @ d @ ''/sitemap.xml'' \<and> status_res r = Failed"
    if "http_request env (getProtocol d @ d @ ''/robots.txt'') = Inl e1"
      and "http_request env (getProtocol d @ d @ ''/sitemap.xml'') = Inl e2" for e1 e2
  proof -
    from that(1) have t: "resolveTarget env d = getProtocol d @ d @ ''/sitemap.xml''"
      by (simp add: resolveTarget_def robotsStep_def axios_get_def tryCatch_def Let_def)
    with r that(2) show ?thesis
      by (auto simp: discoverSitemap_def validateStep_def axios_get_def tryCatch_def Let_def)
  qed
  have n: "url_res r \<noteq> []"
    using u resolveTarget_nonempty[of env d] by simp
  have c: "(\<forall>found. robotsStep env (getProtocol d) d (getProtocol d @ d @ ''/robots.txt'')
                   = Inr (Some found) \<longrightarrow> url_res r = found)
     \<and> ((\<forall>found. robotsStep env (getProtocol d) d (getProtocol d @ d @ ''/robots.txt'')
                   \<noteq> Inr (Some found)) \<longrightarrow> url_res r = getProtocol d @ d @ ''/sitemap.xml'')"
    using resolveTarget_cases[of env d] unfolding u .
  have b: "\<forall>e1 e2. http_request env (getProtocol d @ d @ ''/robots.txt'') = Inl e1
                \<and> http_request env (getProtocol d @ d @ ''/sitemap.xml'') = Inl e2
          \<longrightarrow> url_res r = getProtocol d @ d @ ''/sitemap.xml'' \<and> status_res r = Failed"
    using both by blast
  from r s n u c b show ?thesis by blast
qed

theorem discoverSitemap_total_witness:
  "(\<exists>r. discoverSitemap (exampleWeb exampleRobots (Inl (Error ''timeout of 10000ms exceeded''))
                (Inl (Error ''unused''))) ''example.com'' = Inr r
        \<and> url_res r = ''https://example.com/s1.xml'')
   \<and> (\<exists>r. discoverSitemap (exampleWeb (Inl (Error ''Network Error''))
                (Inl (Error ''Network Error'')) (Inl (Error ''unused''))) ''example.com'' = Inr r
        \<and> url_res r = ''https://example.com/sitemap.xml'' \<and> status_res r = Failed)"
proof -
  define d where "d = ''example.com''"
  define envA where "envA = exampleWeb exampleRobots
         (Inl (Error ''timeout of 10000ms exceeded'')) (Inl (Error ''unused''))"
  define envB where "envB = exampleWeb (Inl (Error ''Network Error''))
                (Inl (Error ''Network Error'')) (Inl (Error ''unused''))"
  have a: "robotsStep envA (getProtocol d) d (getProtocol d @ d @ ''/robots.txt'')
             = Inr (Some ''https://example.com/s1.xml'')"
    unfolding envA_def d_def by (rule robotsStep_example)
  have b1: "http_request envB (getProtocol d @ d @ ''/robots.txt'') = Inl (Error ''Network Error'')"
    and b2: "http_request envB (getProtocol d @ d @ ''/sitemap.xml'') = Inl (Error ''Network Error'')"
    by (simp_all add: envB_def d_def exampleWeb_def exampleEnv_def)
  have dflt: "getProtocol d @ d @ ''/sitemap.xml'' = ''https://example.com/sitemap.xml''"
    by (simp add: d_def getProtocol_example)
  from discoverSitemap_total [of envA d] a
  have A: "\<exists>r. discoverSitemap envA d = Inr r \<and> url_res r = ''https://example.com/s1.xml''"
    by blast
  from discoverSitemap_total [of envB d] b1 b2
  have "\<exists>r. discoverSitemap envB d = Inr r
          \<and> url_res r = getProtocol d @ d @ ''/sitemap.xml'' \<and> status_res r = Failed"
    by blast
  then have B: "\<exists>r. discoverSitemap envB d = Inr r
          \<and> url_res r = ''https://example.com/sitemap.xml'' \<and> status_res r = Failed"
    unfolding dflt .
  from A B show ?thesis unfolding envA_def envB_def d_def by (rule conjI)
qed

end
